theory Spec2Isabelle
  imports Main "HOL-Library.AList"
begin

section \<open>Data model (types.ts, transaction-step.ts, distributed-transaction.ts)\<close>

text \<open>
  Opaque JavaScript values (handler responses, the caller's input, thrown values) are never
  inspected by the orchestrator; they are represented by a text.  JavaScript numbers are
  modelled as integers.
\<close>

type_synonym jsvalue = string

datatype TransactionStepStatus = IDLE | OK | WAITING | TEMPORARY_FAILURE | PERMANENT_FAILURE

datatype TransactionState =
  NOT_STARTED | INVOKING | WAITING_TO_COMPENSATE | COMPENSATING | DONE | REVERTED | FAILED
  | DORMANT | SKIPPED

datatype TransactionHandlerType = INVOKE | COMPENSATE

text \<open>The string values of the enum \<open>TransactionHandlerType\<close>.\<close>

fun handlerTypeName :: "TransactionHandlerType \<Rightarrow> string" where
  "handlerTypeName INVOKE = ''invoke''"
| "handlerTypeName COMPENSATE = ''compensate''"

text \<open>
  Everything the source throws.  \<open>HandlerRejected\<close> is the value a step handler rejects
  with; \<open>StateNotAllowed\<close> and \<open>StatusNotAllowed\<close> are the errors of \<open>changeState\<close> and
  \<open>changeStatus\<close>; \<open>TypeError\<close> is the runtime's error for a property read on
  \<open>undefined\<close>; \<open>ActionAlreadyDefined\<close> is thrown by \<open>buildSteps\<close> and
  \<open>CannotBeOrchestrated\<close> by \<open>resume\<close>.
\<close>

datatype thrown =
  HandlerRejected jsvalue
  | StateNotAllowed TransactionState TransactionState
  | StatusNotAllowed TransactionStepStatus TransactionStepStatus
  | TypeError
  | ActionAlreadyDefined string
  | CannotBeOrchestrated string string

text \<open>
  A call that mutates objects either returns a value or throws; in both cases the objects
  are left in some state, which the outcome carries.
\<close>

datatype ('a, 's) outcome = Returned 'a 's | Threw thrown 's

fun andThen :: "('a, 's) outcome \<Rightarrow> ('a \<Rightarrow> 's \<Rightarrow> ('b, 's) outcome) \<Rightarrow> ('b, 's) outcome" where
  "andThen (Returned a s) f = f a s"
| "andThen (Threw e s) f = Threw e s"

fun finalState :: "('a, 's) outcome \<Rightarrow> 's" where
  "finalState (Returned a s) = s"
| "finalState (Threw e s) = s"

fun hasReturned :: "('a, 's) outcome \<Rightarrow> bool" where
  "hasReturned (Returned a s) = True"
| "hasReturned (Threw e s) = False"

text \<open>
  \<open>TransactionStepsDefinition\<close> without its \<open>next\<close> key: the \<open>definitionCopy\<close> that
  \<open>buildSteps\<close> stores in a step.  An absent boolean flag is \<open>False\<close> (the source only
  tests the flags for truthiness); \<open>maxRetries\<close> and \<open>forwardResponse\<close> have defaults,
  so their absence is kept.
\<close>

record StepPolicy =
  action :: "string option"
  maxRetries :: "int option"
  continueOnPermanentFailure :: bool
  noWait :: bool
  noCompensation :: bool
  policyForwardResponse :: "bool option"

text \<open>
  A \<open>TransactionStepsDefinition\<close> value as \<open>buildSteps\<close> walks it: an object with its
  own keys and an optional \<open>next\<close>, or an array of such values (the other form of
  \<open>next\<close>).  \<open>for (key in obj)\<close> visits the keys in creation order; the flag records
  whether the \<open>next\<close> key was created before the \<open>action\<close> key.
\<close>

datatype TransactionStepsDefinition =
  Definition StepPolicy bool "TransactionStepsDefinition option"
  | DefinitionList "TransactionStepsDefinition list"

record StepStates =
  status :: TransactionStepStatus
  state :: TransactionState

record TransactionStep =
  stepFailed :: bool
  stepId :: string
  stepDefinition :: StepPolicy
  invoke :: StepStates
  compensate :: StepStates
  "next" :: "string list"
  depth :: int
  lastAttempt :: "int option"
  attempts :: int
  failures :: int
  forwardResponse :: bool
  response :: "jsvalue option"

subsection \<open>TransactionStep methods\<close>

definition isCompensating :: "TransactionStep \<Rightarrow> bool" where
  "isCompensating s = stepFailed s"

definition beginCompensation :: "TransactionStep \<Rightarrow> TransactionStep" where
  "beginCompensation s =
     (if isCompensating s then s
      else s\<lparr>stepFailed := True, attempts := 0, failures := 0, lastAttempt := None\<rparr>)"

definition getStates :: "TransactionStep \<Rightarrow> StepStates" where
  "getStates s = (if isCompensating s then compensate s else invoke s)"

text \<open>\<open>getStates\<close> returns a reference; writing through it changes the active pair.\<close>

definition setStates :: "StepStates \<Rightarrow> TransactionStep \<Rightarrow> TransactionStep" where
  "setStates p s = (if isCompensating s then s\<lparr>compensate := p\<rparr> else s\<lparr>invoke := p\<rparr>)"

fun allowedStates :: "TransactionState \<Rightarrow> TransactionState list" where
  "allowedStates DORMANT = [NOT_STARTED]"
| "allowedStates NOT_STARTED = [INVOKING, COMPENSATING, FAILED, SKIPPED]"
| "allowedStates INVOKING = [FAILED, DONE]"
| "allowedStates COMPENSATING = [REVERTED, FAILED]"
| "allowedStates DONE = [COMPENSATING]"
| "allowedStates _ = []"

definition changeState :: "TransactionState \<Rightarrow> TransactionStep \<Rightarrow> (unit, TransactionStep) outcome" where
  "changeState toState s =
     (let curState = getStates s in
      if state curState = toState \<or> toState \<in> set (allowedStates (state curState))
      then Returned () (setStates (curState\<lparr>state := toState\<rparr>) s)
      else Threw (StateNotAllowed (state curState) toState) s)"

fun allowedStatuses :: "TransactionStepStatus \<Rightarrow> TransactionStepStatus list" where
  "allowedStatuses WAITING = [OK, TEMPORARY_FAILURE, PERMANENT_FAILURE]"
| "allowedStatuses TEMPORARY_FAILURE = [IDLE, PERMANENT_FAILURE]"
| "allowedStatuses PERMANENT_FAILURE = [IDLE]"
| "allowedStatuses _ = []"

definition changeStatus :: "TransactionStepStatus \<Rightarrow> TransactionStep \<Rightarrow> (unit, TransactionStep) outcome" where
  "changeStatus toStatus s =
     (let curState = getStates s in
      if status curState = toStatus \<or> toStatus = WAITING
         \<or> toStatus \<in> set (allowedStatuses (status curState))
      then Returned () (setStates (curState\<lparr>status := toStatus\<rparr>) s)
      else Threw (StatusNotAllowed (status curState) toStatus) s)"

definition getResponse :: "TransactionStep \<Rightarrow> jsvalue option" where
  "getResponse s = response s"

definition saveResponse :: "jsvalue option \<Rightarrow> TransactionStep \<Rightarrow> TransactionStep" where
  "saveResponse r s = s\<lparr>response := r\<rparr>"

definition canInvoke :: "TransactionState \<Rightarrow> TransactionStep \<Rightarrow> bool" where
  "canInvoke flowState s =
     ((\<not> isCompensating s \<and> state (getStates s) = NOT_STARTED \<and> flowState = INVOKING)
      \<or> status (getStates s) = TEMPORARY_FAILURE)"

definition canCompensate :: "TransactionState \<Rightarrow> TransactionStep \<Rightarrow> bool" where
  "canCompensate flowState s =
     (isCompensating s \<and> state (getStates s) = NOT_STARTED \<and> flowState = COMPENSATING)"


subsection \<open>Flow, transaction, payload\<close>

text \<open>
  An entry of \<open>flow.steps\<close>.  \<open>buildSteps\<close> stores the plain object
  \<open>{id: '_root', next: []}\<close> under the root key: it has no other field and no
  method, so reading \<open>definition.noWait\<close>, \<open>invoke.state\<close> or calling \<open>getStates\<close> on
  it raises a TypeError.  All other entries are \<open>TransactionStep\<close> objects.
\<close>

datatype FlowStep = RootStep string "string list" | Step TransactionStep

fun entryId :: "FlowStep \<Rightarrow> string" where
  "entryId (RootStep i n) = i"
| "entryId (Step s) = stepId s"

fun entryNext :: "FlowStep \<Rightarrow> string list" where
  "entryNext (RootStep i n) = n"
| "entryNext (Step s) = next s"

text \<open>
  \<open>flow.steps\<close> is a JavaScript object: its keys are distinct and are enumerated in
  insertion order, so it is an association list.  Every key holds its own object (as
  \<open>buildSteps\<close> creates them); a step object is named by its key.
\<close>

record TransactionFlow =
  transactionModelId :: string
  flowTransactionId :: string
  flowState :: TransactionState
  hasSkippedSteps :: bool
  hasFailedSteps :: bool
  steps :: "(string \<times> FlowStep) list"

text \<open>
  The payload object of a transaction: the caller's input and the \<open>_response\<close> property
  that \<open>executeNext\<close> writes into it.  A falsy payload (\<open>undefined\<close>) is \<open>None\<close>.
\<close>

record PayloadData =
  input :: "jsvalue option"
  forwarded :: "jsvalue option"

record TransactionMetadata =
  producer :: string
  reply_to_topic :: string
  idempotency_key :: string
  metadataAction :: string
  action_type :: TransactionHandlerType
  attempt :: int
  timestamp :: int

record TransactionPayload =
  metadata :: TransactionMetadata
  data :: "PayloadData option"

datatype HandlerResult = Resolve "jsvalue option" | Reject jsvalue

type_synonym HandlerCall = "string \<times> TransactionHandlerType \<times> TransactionPayload"

text \<open>
  The step handler is a field of the transaction.  It may keep state of its own, so its
  result may depend on the calls made so far, which it receives as first argument.
\<close>

type_synonym TransactionStepHandler =
  "HandlerCall list \<Rightarrow> string \<Rightarrow> TransactionHandlerType \<Rightarrow> TransactionPayload \<Rightarrow> HandlerResult"

record DistributedTransaction =
  transactionId :: string
  modelId :: string
  errors :: "(string option \<times> TransactionHandlerType \<times> thrown) list"
  flow :: TransactionFlow
  handler :: TransactionStepHandler
  payload :: "PayloadData option"

definition getState :: "DistributedTransaction \<Rightarrow> TransactionState" where
  "getState t = flowState (flow t)"

definition isPartiallyCompleted :: "DistributedTransaction \<Rightarrow> bool" where
  "isPartiallyCompleted t = (hasFailedSteps (flow t) \<or> hasSkippedSteps (flow t))"

definition hasFinished :: "DistributedTransaction \<Rightarrow> bool" where
  "hasFinished t = (getState t \<in> set [DONE, REVERTED, FAILED])"

definition addError ::
  "string option \<Rightarrow> TransactionHandlerType \<Rightarrow> thrown \<Rightarrow> DistributedTransaction \<Rightarrow> DistributedTransaction" where
  "addError a ty e t = t\<lparr>errors := errors t @ [(a, ty, e)]\<rparr>"

section \<open>The orchestrator (transaction-orchestrator.ts)\<close>

definition ROOT_STEP :: string where
  "ROOT_STEP = ''_root''"

definition DEFAULT_RETRIES :: int where
  "DEFAULT_RETRIES = 3"

definition SEPARATOR :: string where
  "SEPARATOR = '':''"

text \<open>\<open>Array.prototype.join\<close> and \<open>String.prototype.split\<close> with a one-character separator.\<close>

fun joinWith :: "string \<Rightarrow> string list \<Rightarrow> string" where
  "joinWith sep [] = []"
| "joinWith sep [x] = x"
| "joinWith sep (x # y # ys) = x @ sep @ joinWith sep (y # ys)"

fun splitOn :: "char \<Rightarrow> string \<Rightarrow> string list" where
  "splitOn c [] = [[]]"
| "splitOn c (x # xs) =
     (if x = c then [] # splitOn c xs
      else (case splitOn c xs of [] \<Rightarrow> [[x]] | w # ws \<Rightarrow> (x # w) # ws))"

definition getKeyName :: "string list \<Rightarrow> string" where
  "getKeyName params = joinWith SEPARATOR params"

text \<open>The id of the parent: \<open>id.split('.')\<close>, \<open>pop()\<close>, \<open>join('.')\<close>.\<close>

definition parentId :: "string \<Rightarrow> string" where
  "parentId i = joinWith ''.'' (butlast (splitOn (CHR ''.'') i))"

definition getPreviousStep :: "TransactionFlow \<Rightarrow> FlowStep \<Rightarrow> FlowStep option" where
  "getPreviousStep fl step = map_of (steps fl) (parentId (entryId step))"

text \<open>\<open>Array.prototype.every\<close> with a callback that may throw: it stops at the first \<open>false\<close>.\<close>

fun every :: "('a \<Rightarrow> thrown + bool) \<Rightarrow> 'a list \<Rightarrow> thrown + bool" where
  "every p [] = Inr True"
| "every p (x # xs) =
     (case p x of Inl e \<Rightarrow> Inl e | Inr b \<Rightarrow> if b then every p xs else Inr False)"

definition compensateStateIn :: "TransactionState list \<Rightarrow> FlowStep option \<Rightarrow> thrown + bool" where
  "compensateStateIn states sib =
     (case sib of Some (Step s) \<Rightarrow> Inr (state (compensate s) \<in> set states)
      | _ \<Rightarrow> Inl TypeError)"

definition invokeStateIn :: "TransactionState list \<Rightarrow> FlowStep option \<Rightarrow> thrown + bool" where
  "invokeStateIn states sib =
     (case sib of Some (Step s) \<Rightarrow> Inr (state (invoke s) \<in> set states)
      | _ \<Rightarrow> Inl TypeError)"

definition canMoveBackward :: "TransactionFlow \<Rightarrow> FlowStep \<Rightarrow> thrown + bool" where
  "canMoveBackward fl step =
     (let states = [DONE, REVERTED, FAILED, DORMANT];
          siblings = map (map_of (steps fl)) (entryNext step)
      in if length siblings = 0 then Inr True else every (compensateStateIn states) siblings)"

definition canMoveForward :: "TransactionFlow \<Rightarrow> FlowStep \<Rightarrow> thrown + bool" where
  "canMoveForward fl previousStep =
     (let states = [DONE, FAILED, SKIPPED] in
      case getPreviousStep fl previousStep of
        None \<Rightarrow> Inl TypeError
      | Some parent \<Rightarrow>
          (let siblings = map (map_of (steps fl)) (entryNext parent) in
           case previousStep of
             RootStep i n \<Rightarrow> Inl TypeError
           | Step p \<Rightarrow>
               if noWait (stepDefinition p) then Inr True
               else every (invokeStateIn states) siblings))"

definition canContinue :: "TransactionFlow \<Rightarrow> FlowStep option \<Rightarrow> thrown + bool" where
  "canContinue fl stepOpt =
     (case stepOpt of
        None \<Rightarrow> Inl TypeError
      | Some step \<Rightarrow>
          if flowState fl = COMPENSATING then canMoveBackward fl step
          else (case getPreviousStep fl step of
                  None \<Rightarrow> Inl TypeError
                | Some previous \<Rightarrow>
                    if entryId previous = ROOT_STEP then Inr True
                    else canMoveForward fl previous))"


subsection \<open>Step orderings\<close>

text \<open>
  The orchestrator object: its id, and the two orderings it computes on first use and
  keeps (\<open>this.invokeSteps\<close>, \<open>this.compensateSteps\<close>; an empty array is recomputed).
\<close>

record Orchestrator =
  orchestratorId :: string
  orchestratorDefinition :: TransactionStepsDefinition
  invokeSteps :: "string list"
  compensateSteps :: "string list"

text \<open>
  \<open>Array.prototype.sort\<close> is stable; it is modelled as an insertion sort driven by the
  comparator.  A comparator result \<open>NaN\<close> counts as \<open>0\<close>.
\<close>

fun insertBy :: "('a \<Rightarrow> 'a \<Rightarrow> int) \<Rightarrow> 'a \<Rightarrow> 'a list \<Rightarrow> 'a list" where
  "insertBy cmp x [] = [x]"
| "insertBy cmp x (y # ys) = (if cmp x y \<le> 0 then x # y # ys else y # insertBy cmp x ys)"

definition sortBy :: "('a \<Rightarrow> 'a \<Rightarrow> int) \<Rightarrow> 'a list \<Rightarrow> 'a list" where
  "sortBy cmp xs = foldr (insertBy cmp) xs []"

text \<open>
  \<open>(flow.steps[b].depth || 0) - (flow.steps[a].depth || 0)\<close>: the root object has no
  depth.
\<close>

definition depthOrZero :: "TransactionFlow \<Rightarrow> string \<Rightarrow> int" where
  "depthOrZero fl k = (case map_of (steps fl) k of Some (Step s) \<Rightarrow> depth s | _ \<Rightarrow> 0)"

definition compensationOrder :: "TransactionFlow \<Rightarrow> string \<Rightarrow> string \<Rightarrow> int" where
  "compensationOrder fl a b = depthOrZero fl b - depthOrZero fl a"

text \<open>
  \<open>flow.steps[a].depth - flow.steps[b].depth\<close>: with the root on either side the
  difference is \<open>NaN\<close>.
\<close>

definition invokeOrder :: "TransactionFlow \<Rightarrow> string \<Rightarrow> string \<Rightarrow> int" where
  "invokeOrder fl a b =
     (case (map_of (steps fl) a, map_of (steps fl) b) of
        (Some (Step x), Some (Step y)) \<Rightarrow> depth x - depth y
      | _ \<Rightarrow> 0)"

definition getCompensationSteps :: "Orchestrator \<Rightarrow> TransactionFlow \<Rightarrow> string list \<times> Orchestrator" where
  "getCompensationSteps orch fl =
     (if length (compensateSteps orch) \<noteq> 0 then (compensateSteps orch, orch)
      else (let sorted = sortBy (compensationOrder fl) (map fst (steps fl))
            in (sorted, orch\<lparr>compensateSteps := sorted\<rparr>)))"

definition getInvokeSteps :: "Orchestrator \<Rightarrow> TransactionFlow \<Rightarrow> string list \<times> Orchestrator" where
  "getInvokeSteps orch fl =
     (if length (invokeSteps orch) \<noteq> 0 then (invokeSteps orch, orch)
      else (let sorted = sortBy (invokeOrder fl) (map fst (steps fl))
            in (sorted, orch\<lparr>invokeSteps := sorted\<rparr>)))"

subsection \<open>flagStepsToRevert\<close>

text \<open>Writing a mutated step object back under its key.\<close>

definition putStep :: "string \<Rightarrow> TransactionStep \<Rightarrow> (string \<times> FlowStep) list \<Rightarrow> (string \<times> FlowStep) list" where
  "putStep k s table = AList.map_entry k (\<lambda>_. Step s) table"

definition flagStep :: "string \<Rightarrow> (string \<times> FlowStep) list \<Rightarrow> (unit, (string \<times> FlowStep) list) outcome" where
  "flagStep k table =
     (if k = ROOT_STEP then Returned () table
      else (case map_of table k of
              Some (Step stepDef) \<Rightarrow>
                (let curState = getStates stepDef in
                 if (state curState = DONE \<or> status curState = PERMANENT_FAILURE)
                    \<and> \<not> noCompensation (stepDefinition stepDef)
                 then (case changeState NOT_STARTED (beginCompensation stepDef) of
                         Returned u s' \<Rightarrow> Returned () (putStep k s' table)
                       | Threw e s' \<Rightarrow> Threw e (putStep k s' table))
                 else Returned () table)
            | _ \<Rightarrow> Threw TypeError table))"

fun flagSteps :: "string list \<Rightarrow> (string \<times> FlowStep) list \<Rightarrow> (unit, (string \<times> FlowStep) list) outcome" where
  "flagSteps [] table = Returned () table"
| "flagSteps (k # ks) table = andThen (flagStep k table) (\<lambda>_. flagSteps ks)"

definition flagStepsToRevert :: "(string \<times> FlowStep) list \<Rightarrow> (unit, (string \<times> FlowStep) list) outcome" where
  "flagStepsToRevert table = flagSteps (map fst table) table"

subsection \<open>checkAllSteps\<close>

record Scan =
  hasSkipped :: bool
  hasIgnoredFailure :: bool
  hasFailed :: bool
  hasWaiting :: bool
  hasReverted :: bool
  completedSteps :: int
  nextSteps :: "string list"

definition emptyScan :: Scan where
  "emptyScan = \<lparr>hasSkipped = False, hasIgnoredFailure = False, hasFailed = False,
                 hasWaiting = False, hasReverted = False, completedSteps = 0, nextSteps = []\<rparr>"

text \<open>The classification of a step that is neither waiting nor eligible.\<close>

definition classify :: "TransactionStep \<Rightarrow> Scan \<Rightarrow> Scan" where
  "classify stepDef sc =
     (let curState = getStates stepDef; sc1 = sc\<lparr>completedSteps := completedSteps sc + 1\<rparr> in
      if state curState = SKIPPED then sc1\<lparr>hasSkipped := True\<rparr>
      else if state curState = REVERTED then sc1\<lparr>hasReverted := True\<rparr>
      else if state curState = FAILED then
        (if continueOnPermanentFailure (stepDefinition stepDef) then sc1\<lparr>hasIgnoredFailure := True\<rparr>
         else sc1\<lparr>hasFailed := True\<rparr>)
      else sc1)"

text \<open>One iteration of the loop over \<open>allSteps\<close>.\<close>

definition scanStep :: "TransactionFlow \<Rightarrow> Scan \<Rightarrow> string \<Rightarrow> thrown + Scan" where
  "scanStep fl sc k =
     (if k = ROOT_STEP then Inr sc
      else (case canContinue fl (map_of (steps fl) k) of
              Inl e \<Rightarrow> Inl e
            | Inr False \<Rightarrow> Inr sc
            | Inr True \<Rightarrow>
                (case map_of (steps fl) k of
                   Some (Step stepDef) \<Rightarrow>
                     (let curState = getStates stepDef in
                      if status curState = WAITING then Inr (sc\<lparr>hasWaiting := True\<rparr>)
                      else if canInvoke (flowState fl) stepDef \<or> canCompensate (flowState fl) stepDef
                      then Inr (sc\<lparr>nextSteps := nextSteps sc @ [k]\<rparr>)
                      else Inr (classify stepDef sc))
                 | _ \<Rightarrow> Inl TypeError)))"

fun scanSteps :: "TransactionFlow \<Rightarrow> Scan \<Rightarrow> string list \<Rightarrow> thrown + Scan" where
  "scanSteps fl sc [] = Inr sc"
| "scanSteps fl sc (k # ks) =
     (case scanStep fl sc k of Inl e \<Rightarrow> Inl e | Inr sc' \<Rightarrow> scanSteps fl sc' ks)"

record StepsResult =
  resultNext :: "string list"
  total :: int
  remaining :: int
  completed :: int

text \<open>
  The state an orchestrator call works on: the orchestrator, the transaction it drives,
  the calls made to the step handler so far, and the number of times the clock
  (\<open>Date.now()\<close>) has been read.
\<close>

record Execution =
  orchestrator :: Orchestrator
  transaction :: DistributedTransaction
  calls :: "HandlerCall list"
  clockReads :: nat

definition getFlow :: "Execution \<Rightarrow> TransactionFlow" where
  "getFlow x = flow (transaction x)"

definition setFlow :: "TransactionFlow \<Rightarrow> Execution \<Rightarrow> Execution" where
  "setFlow fl x = x\<lparr>transaction := (transaction x)\<lparr>flow := fl\<rparr>\<rparr>"

definition allStepsOf :: "Execution \<Rightarrow> string list \<times> Orchestrator" where
  "allStepsOf x =
     (if flowState (getFlow x) = COMPENSATING
      then getCompensationSteps (orchestrator x) (getFlow x)
      else getInvokeSteps (orchestrator x) (getFlow x))"

definition stepsResult :: "Scan \<Rightarrow> int \<Rightarrow> StepsResult" where
  "stepsResult sc totalSteps =
     \<lparr>resultNext = nextSteps sc, total = totalSteps,
      remaining = totalSteps - completedSteps sc, completed = completedSteps sc\<rparr>"

definition finalize :: "Scan \<Rightarrow> TransactionFlow \<Rightarrow> TransactionFlow" where
  "finalize sc fl =
     (let fl1 = (if hasSkipped sc then fl\<lparr>hasSkippedSteps := True\<rparr> else fl);
          fl2 = (if hasIgnoredFailure sc then fl1\<lparr>hasFailedSteps := True\<rparr> else fl1)
      in if hasFailed sc then fl2\<lparr>flowState := FAILED\<rparr>
         else fl2\<lparr>flowState := (if hasReverted sc then REVERTED else DONE)\<rparr>)"

function checkAllSteps :: "Execution \<Rightarrow> (StepsResult, Execution) outcome" where
  "checkAllSteps x =
     (let fl = getFlow x;
          allSteps = fst (allStepsOf x);
          x1 = x\<lparr>orchestrator := snd (allStepsOf x)\<rparr>
      in case scanSteps fl emptyScan allSteps of
           Inl e \<Rightarrow> Threw e x1
         | Inr sc \<Rightarrow>
             (let totalSteps = int (length allSteps) - 1 in
              if flowState fl = WAITING_TO_COMPENSATE \<and> length (nextSteps sc) = 0 \<and> \<not> hasWaiting sc
              then (case flagStepsToRevert (steps fl) of
                      Threw e table \<Rightarrow> Threw e (setFlow (fl\<lparr>flowState := COMPENSATING, steps := table\<rparr>) x1)
                    | Returned u table \<Rightarrow>
                        checkAllSteps (setFlow (fl\<lparr>flowState := COMPENSATING, steps := table\<rparr>) x1))
              else if completedSteps sc = totalSteps
              then Returned (stepsResult sc totalSteps) (setFlow (finalize sc fl) x1)
              else Returned (stepsResult sc totalSteps) x1))"
  by pat_completeness auto
termination
  by (relation "measure (\<lambda>x. if flowState (getFlow x) = WAITING_TO_COMPENSATE then 1 else 0)")
     (auto simp: getFlow_def setFlow_def)

declare checkAllSteps.simps [simp del]


subsection \<open>Step outcomes: setStepSuccess, setStepFailure\<close>

definition setStepSuccess :: "jsvalue option \<Rightarrow> TransactionStep \<Rightarrow> (unit, TransactionStep) outcome" where
  "setStepSuccess resp step =
     (let s1 = (if forwardResponse step then saveResponse resp step else step) in
      andThen (changeStatus OK s1) (\<lambda>_ s2.
        if isCompensating s2 then changeState REVERTED s2 else changeState DONE s2))"

text \<open>
  A method call on the step object stored under a key of the transaction's flow; the
  object keeps whatever the call did to it, also when the call throws.
\<close>

definition putFlowStep :: "string \<Rightarrow> TransactionStep \<Rightarrow> DistributedTransaction \<Rightarrow> DistributedTransaction" where
  "putFlowStep k s t = t\<lparr>flow := (flow t)\<lparr>steps := putStep k s (steps (flow t))\<rparr>\<rparr>"

definition onStep ::
  "string \<Rightarrow> (TransactionStep \<Rightarrow> (unit, TransactionStep) outcome) \<Rightarrow> DistributedTransaction
   \<Rightarrow> (unit, DistributedTransaction) outcome" where
  "onStep k f t =
     (case map_of (steps (flow t)) k of
        Some (Step s) \<Rightarrow>
          (case f s of
             Returned u s' \<Rightarrow> Returned () (putFlowStep k s' t)
           | Threw e s' \<Rightarrow> Threw e (putFlowStep k s' t))
      | _ \<Rightarrow> Threw TypeError t)"

text \<open>The loop \<open>for (const childStep of step.next)\<close> of \<open>setStepFailure\<close>.\<close>

fun skipChildren :: "string list \<Rightarrow> DistributedTransaction \<Rightarrow> (unit, DistributedTransaction) outcome" where
  "skipChildren [] t = Returned () t"
| "skipChildren (childStep # rest) t =
     andThen (onStep childStep (changeState SKIPPED) t) (\<lambda>_. skipChildren rest)"

text \<open>
  \<open>setStepFailure(transaction, step, error, maxRetries = this.DEFAULT_RETRIES)\<close>; the
  step is the object stored under key \<open>k\<close>.
\<close>

definition setStepFailure ::
  "string \<Rightarrow> thrown \<Rightarrow> int option \<Rightarrow> DistributedTransaction \<Rightarrow> (unit, DistributedTransaction) outcome" where
  "setStepFailure k error maxRetriesArg t =
     (let maxRetries' = (case maxRetriesArg of None \<Rightarrow> DEFAULT_RETRIES | Some m \<Rightarrow> m) in
      andThen (onStep k (\<lambda>s. changeStatus TEMPORARY_FAILURE (s\<lparr>failures := failures s + 1\<rparr>)) t) (\<lambda>_ t1.
        case map_of (steps (flow t1)) k of
          Some (Step step) \<Rightarrow>
            if failures step > maxRetries' then
              andThen (onStep k (changeState FAILED) t1) (\<lambda>_ t2.
              andThen (onStep k (changeStatus PERMANENT_FAILURE) t2) (\<lambda>_ t3.
                (let t4 = addError (action (stepDefinition step))
                                   (if isCompensating step then COMPENSATE else INVOKE) error t3
                 in if \<not> isCompensating step then
                      (if continueOnPermanentFailure (stepDefinition step)
                       then skipChildren (next step) t4
                       else Returned () (t4\<lparr>flow := (flow t4)\<lparr>flowState := WAITING_TO_COMPENSATE\<rparr>\<rparr>))
                    else Returned () t4)))
            else Returned () t1
        | _ \<Rightarrow> Threw TypeError t1))"

subsection \<open>executeNext and resume\<close>

text \<open>
  The body of the loop over \<open>nextSteps.next\<close> up to and including the call of the
  handler.  \<open>now\<close> gives the value of the n-th reading of the clock.  The handler's result
  is kept with the step's key until the promise callbacks run.
\<close>

definition actionText :: "string option \<Rightarrow> string" where
  "actionText a = (case a of None \<Rightarrow> ''undefined'' | Some n \<Rightarrow> n)"

definition actionKey :: "string option \<Rightarrow> string" where
  "actionKey a = (case a of None \<Rightarrow> [] | Some n \<Rightarrow> n)"

definition entryForwardResponse :: "FlowStep \<Rightarrow> bool" where
  "entryForwardResponse e = (case e of RootStep i n \<Rightarrow> False | Step s \<Rightarrow> forwardResponse s)"

definition entryResponse :: "FlowStep \<Rightarrow> jsvalue option" where
  "entryResponse e = (case e of RootStep i n \<Rightarrow> None | Step s \<Rightarrow> getResponse s)"

definition beginAttempt :: "TransactionState \<Rightarrow> int \<Rightarrow> TransactionStep \<Rightarrow> (unit, TransactionStep) outcome" where
  "beginAttempt flState time step =
     (let curState = getStates step;
          s1 = step\<lparr>lastAttempt := Some time, attempts := attempts step + 1\<rparr>
      in andThen
           (if state curState = NOT_STARTED then
              (if isCompensating s1 then changeState COMPENSATING s1
               else if flState = INVOKING then changeState INVOKING s1
               else Returned () s1)
            else Returned () s1)
           (\<lambda>_. changeStatus WAITING))"

definition buildPayload ::
  "TransactionFlow \<Rightarrow> TransactionStep \<Rightarrow> TransactionHandlerType \<Rightarrow> int \<Rightarrow> PayloadData option
   \<Rightarrow> TransactionPayload" where
  "buildPayload fl step ty time payloadData =
     \<lparr>metadata =
        \<lparr>producer = transactionModelId fl,
         reply_to_topic = getKeyName [''trans'', transactionModelId fl],
         idempotency_key =
           getKeyName [flowTransactionId fl, actionKey (action (stepDefinition step)), handlerTypeName ty],
         metadataAction = actionText (action (stepDefinition step)),
         action_type = ty,
         attempt = attempts step,
         timestamp = time\<rparr>,
      data = payloadData\<rparr>"

definition dispatchStep ::
  "(nat \<Rightarrow> int) \<Rightarrow> string \<Rightarrow> Execution \<Rightarrow> (string \<times> HandlerResult, Execution) outcome" where
  "dispatchStep now k x =
     (case map_of (steps (getFlow x)) k of
        Some (Step step0) \<Rightarrow>
          (let ty = (if isCompensating step0 then COMPENSATE else INVOKE);
               x1 = x\<lparr>clockReads := clockReads x + 1\<rparr>
           in case onStep k (beginAttempt (flowState (getFlow x)) (now (clockReads x))) (transaction x1) of
                Threw e t \<Rightarrow> Threw e (x1\<lparr>transaction := t\<rparr>)
              | Returned u t \<Rightarrow>
                  (case map_of (steps (flow t)) k of
                     Some (Step step) \<Rightarrow>
                       (case getPreviousStep (flow t) (Step step) of
                          None \<Rightarrow> Threw TypeError (x1\<lparr>transaction := t\<rparr>)
                        | Some parent \<Rightarrow>
                            (let t' = (if entryForwardResponse parent
                                       then (case payload t of
                                               None \<Rightarrow> t
                                             | Some pd \<Rightarrow> t\<lparr>payload := Some (pd\<lparr>forwarded := entryResponse parent\<rparr>)\<rparr>)
                                       else t);
                                 payloadData = (if entryForwardResponse parent
                                                then (case payload t of
                                                        None \<Rightarrow> Some \<lparr>input = None, forwarded = entryResponse parent\<rparr>
                                                      | Some pd \<Rightarrow> Some (pd\<lparr>forwarded := entryResponse parent\<rparr>))
                                                else payload t);
                                 pl = buildPayload (flow t') step ty (now (clockReads x1)) payloadData;
                                 a = actionText (action (stepDefinition step));
                                 r = handler t' (calls x1) a ty pl
                             in Returned (k, r)
                                  (x1\<lparr>transaction := t', calls := calls x1 @ [(a, ty, pl)],
                                      clockReads := clockReads x1 + 1\<rparr>)))
                   | _ \<Rightarrow> Threw TypeError (x1\<lparr>transaction := t\<rparr>)))
      | _ \<Rightarrow> Threw TypeError x)"

fun dispatchSteps ::
  "(nat \<Rightarrow> int) \<Rightarrow> string list \<Rightarrow> Execution \<Rightarrow> ((string \<times> HandlerResult) list, Execution) outcome" where
  "dispatchSteps now [] x = Returned [] x"
| "dispatchSteps now (k # ks) x =
     andThen (dispatchStep now k x) (\<lambda>r x1.
       andThen (dispatchSteps now ks x1) (\<lambda>rs x2. Returned (r # rs) x2))"

text \<open>
  The promise callbacks of one dispatched step:
  \<open>handler(...).then(response => setStepSuccess(step, response))
   .catch(error => setStepFailure(transaction, step, error, step.definition.maxRetries))\<close>.
  The \<open>catch\<close> also receives what \<open>setStepSuccess\<close> throws.
\<close>

definition stepMaxRetries :: "string \<Rightarrow> DistributedTransaction \<Rightarrow> int option" where
  "stepMaxRetries k t =
     (case map_of (steps (flow t)) k of Some (Step s) \<Rightarrow> maxRetries (stepDefinition s) | _ \<Rightarrow> None)"

definition settleStep :: "string \<times> HandlerResult \<Rightarrow> DistributedTransaction \<Rightarrow> (unit, DistributedTransaction) outcome" where
  "settleStep kr t =
     (case snd kr of
        Resolve resp \<Rightarrow>
          (case onStep (fst kr) (setStepSuccess resp) t of
             Returned u t1 \<Rightarrow> Returned () t1
           | Threw e t1 \<Rightarrow> setStepFailure (fst kr) e (stepMaxRetries (fst kr) t1) t1)
      | Reject v \<Rightarrow> setStepFailure (fst kr) (HandlerRejected v) (stepMaxRetries (fst kr) t) t)"

fun settleSteps :: "(string \<times> HandlerResult) list \<Rightarrow> DistributedTransaction \<Rightarrow> (unit, DistributedTransaction) outcome" where
  "settleSteps [] t = Returned () t"
| "settleSteps (kr # krs) t = andThen (settleStep kr t) (\<lambda>_. settleSteps krs)"

text \<open>
  \<open>executeNext\<close> calls itself as long as a pass finds steps to run.  The first argument
  bounds the number of nested calls; \<open>None\<close> means the bound was reached before the call
  returned.  The steps of one pass are all dispatched first; their callbacks then run one
  after the other in dispatch order (the source awaits them together with \<open>Promise.all\<close>,
  the order in which handlers settle is not fixed by the code).
\<close>

fun executeNext :: "nat \<Rightarrow> (nat \<Rightarrow> int) \<Rightarrow> Execution \<Rightarrow> (unit, Execution) outcome option" where
  "executeNext 0 now x = None"
| "executeNext (Suc fuel) now x =
     (if hasFinished (transaction x) then Some (Returned () x)
      else (case checkAllSteps x of
              Threw e x1 \<Rightarrow> Some (Threw e x1)
            | Returned res x1 \<Rightarrow>
                (case dispatchSteps now (resultNext res) x1 of
                   Threw e x2 \<Rightarrow> Some (Threw e x2)
                 | Returned execution x2 \<Rightarrow>
                     (case settleSteps execution (transaction x2) of
                        Threw e t \<Rightarrow> Some (Threw e (x2\<lparr>transaction := t\<rparr>))
                      | Returned u t \<Rightarrow>
                          if length (resultNext res) > 0
                          then executeNext fuel now (x2\<lparr>transaction := t\<rparr>)
                          else Some (Returned () (x2\<lparr>transaction := t\<rparr>))))))"

definition resume :: "nat \<Rightarrow> (nat \<Rightarrow> int) \<Rightarrow> Execution \<Rightarrow> (unit, Execution) outcome option" where
  "resume fuel now x =
     (if modelId (transaction x) \<noteq> orchestratorId (orchestrator x)
      then Some (Threw (CannotBeOrchestrated (modelId (transaction x)) (orchestratorId (orchestrator x))) x)
      else if hasFinished (transaction x) then Some (Returned () x)
      else (let fl = getFlow x;
                x1 = (if flowState fl = NOT_STARTED then setFlow (fl\<lparr>flowState := INVOKING\<rparr>) x else x)
            in executeNext fuel now x1))"


subsection \<open>buildSteps, createTransactionFlow, beginTransaction\<close>

text \<open>
  The local state of \<open>buildSteps\<close>: the table being built, the action names seen, and
  the table of existing steps.  \<open>Object.assign(new TransactionStep(), existingSteps[id])\<close>
  copies the fields of the existing step, so the new step's \<open>next\<close> is the very array of
  the existing one: a later \<open>push\<close> on it is seen through both.
\<close>

record BuildState =
  states :: "(string \<times> FlowStep) list"
  actionNames :: "string list"
  existingSteps :: "(string \<times> TransactionStep) list"

definition pushNextId :: "string \<Rightarrow> FlowStep \<Rightarrow> FlowStep" where
  "pushNextId i e =
     (case e of RootStep r n \<Rightarrow> RootStep r (n @ [i]) | Step s \<Rightarrow> Step (s\<lparr>next := next s @ [i]\<rparr>))"

definition freshStep :: "string \<Rightarrow> int \<Rightarrow> StepPolicy \<Rightarrow> TransactionStep" where
  "freshStep i d definitionCopy =
     \<lparr>stepFailed = False, stepId = i, stepDefinition = definitionCopy,
      invoke = \<lparr>status = IDLE, state = NOT_STARTED\<rparr>,
      compensate = \<lparr>status = IDLE, state = DORMANT\<rparr>,
      next = [], depth = d, lastAttempt = None, attempts = 0, failures = 0,
      forwardResponse = (case policyForwardResponse definitionCopy of None \<Rightarrow> True | Some b \<Rightarrow> b),
      response = None\<rparr>"

text \<open>The branch \<open>key === 'action'\<close> for an object with action \<open>a\<close> reached at \<open>level\<close>.\<close>

definition addAction :: "StepPolicy \<Rightarrow> string \<Rightarrow> string list \<Rightarrow> BuildState \<Rightarrow> thrown + BuildState" where
  "addAction obj a level st =
     (if a \<in> set (actionNames st) then Inl (ActionAlreadyDefined a)
      else (let level' = level @ [a];
                i = joinWith ''.'' level';
                parent = joinWith ''.'' (butlast level')
            in case map_of (states st) parent of
                 None \<Rightarrow> Inl TypeError
               | Some p \<Rightarrow>
                   (let states1 = AList.map_entry parent (pushNextId i) (states st);
                        existing1 = (if parent \<noteq> ROOT_STEP
                                     then AList.map_entry parent (\<lambda>s. s\<lparr>next := next s @ [i]\<rparr>) (existingSteps st)
                                     else existingSteps st);
                        new = (case map_of existing1 i of
                                 Some e \<Rightarrow> e
                               | None \<Rightarrow> freshStep i (int (length level') - 1) obj)
                    in Inr \<lparr>states = AList.update i (Step new) states1,
                            actionNames = actionNames st @ [a],
                            existingSteps = existing1\<rparr>)))"

fun children :: "TransactionStepsDefinition \<Rightarrow> TransactionStepsDefinition list" where
  "children (Definition obj nextFirst None) = []"
| "children (Definition obj nextFirst (Some d)) = [d]"
| "children (DefinitionList ds) = ds"

text \<open>
  The level that the queue entries of the children receive: a copy of \<open>level\<close> taken when
  the \<open>next\<close> key is visited, that is before or after the action was appended to it.
\<close>

fun childLevel :: "TransactionStepsDefinition \<Rightarrow> string list \<Rightarrow> string list" where
  "childLevel (Definition obj nextFirst nx) level =
     (case action obj of
        Some a \<Rightarrow> if nextFirst then level else level @ [a]
      | None \<Rightarrow> level)"
| "childLevel (DefinitionList ds) level = level"

fun visit :: "TransactionStepsDefinition \<Rightarrow> string list \<Rightarrow> BuildState \<Rightarrow> thrown + BuildState" where
  "visit (Definition obj nextFirst nx) level st =
     (case action obj of Some a \<Rightarrow> addAction obj a level st | None \<Rightarrow> Inr st)"
| "visit (DefinitionList ds) level st = Inr st"

function buildQueue ::
  "(TransactionStepsDefinition \<times> string list) list \<Rightarrow> BuildState \<Rightarrow> thrown + BuildState" where
  "buildQueue [] st = Inr st"
| "buildQueue ((obj, level) # queue) st =
     (case visit obj level st of
        Inl e \<Rightarrow> Inl e
      | Inr st' \<Rightarrow> buildQueue (queue @ map (\<lambda>d. (d, childLevel obj level)) (children obj)) st')"
  by pat_completeness auto
termination
proof (relation "measure (\<lambda>(queue, st). sum_list (map (\<lambda>(d, l). size d) queue))", goal_cases)
  case 1
  show ?case by simp
next
  case (2 obj level queue st st')
  have "sum_list (map size (children obj)) < size obj"
    by (cases obj rule: children.cases) (auto simp: size_list_conv_sum_list)
  then show ?case by (simp add: comp_def)
qed

definition buildSteps ::
  "TransactionStepsDefinition \<Rightarrow> (string \<times> TransactionStep) list \<Rightarrow> thrown + (string \<times> FlowStep) list" where
  "buildSteps def existing =
     (case buildQueue [(def, [ROOT_STEP])]
             \<lparr>states = [(ROOT_STEP, RootStep ROOT_STEP [])], actionNames = [], existingSteps = existing\<rparr> of
        Inl e \<Rightarrow> Inl e
      | Inr st \<Rightarrow> Inr (states st))"

definition createTransactionFlow :: "Orchestrator \<Rightarrow> string \<Rightarrow> thrown + TransactionFlow" where
  "createTransactionFlow orch txId =
     (case buildSteps (orchestratorDefinition orch) [] of
        Inl e \<Rightarrow> Inl e
      | Inr table \<Rightarrow>
          Inr \<lparr>transactionModelId = orchestratorId orch, flowTransactionId = txId,
               flowState = NOT_STARTED, hasSkippedSteps = False, hasFailedSteps = False,
               steps = table\<rparr>)"

definition beginTransaction ::
  "Orchestrator \<Rightarrow> string \<Rightarrow> TransactionStepHandler \<Rightarrow> PayloadData option \<Rightarrow> thrown + DistributedTransaction" where
  "beginTransaction orch txId h pl =
     (case createTransactionFlow orch txId of
        Inl e \<Rightarrow> Inl e
      | Inr modelFlow \<Rightarrow>
          Inr \<lparr>transactionId = flowTransactionId modelFlow, modelId = transactionModelId modelFlow,
               errors = [], flow = modelFlow, handler = h, payload = pl\<rparr>)"


subsection \<open>Notions used to state properties of a pass\<close>

text \<open>
  The loop of \<open>checkAllSteps\<close> on the state it is entered with, the value of
  \<open>totalSteps\<close>, the condition of its first branch (compensation starts and the pass is run
  again), and the step that the loop counts as completed at a key, if it does.
\<close>

definition passScan :: "Execution \<Rightarrow> thrown + Scan" where
  "passScan x = scanSteps (getFlow x) emptyScan (fst (allStepsOf x))"

definition passTotal :: "Execution \<Rightarrow> int" where
  "passTotal x = int (length (fst (allStepsOf x))) - 1"

definition startsCompensation :: "Execution \<Rightarrow> Scan \<Rightarrow> bool" where
  "startsCompensation x sc =
     (flowState (getFlow x) = WAITING_TO_COMPENSATE \<and> length (nextSteps sc) = 0 \<and> \<not> hasWaiting sc)"

definition completedBy :: "TransactionFlow \<Rightarrow> string \<Rightarrow> TransactionStep option" where
  "completedBy fl k =
     (if k = ROOT_STEP then None
      else (case canContinue fl (map_of (steps fl) k) of
              Inr True \<Rightarrow>
                (case map_of (steps fl) k of
                   Some (Step s) \<Rightarrow>
                     if status (getStates s) \<noteq> WAITING \<and> \<not> canInvoke (flowState fl) s
                        \<and> \<not> canCompensate (flowState fl) s
                     then Some s else None
                 | _ \<Rightarrow> None)
            | _ \<Rightarrow> None))"

definition anyCompleted :: "Execution \<Rightarrow> (TransactionStep \<Rightarrow> bool) \<Rightarrow> bool" where
  "anyCompleted x P =
     (\<exists>k \<in> set (fst (allStepsOf x)). case completedBy (getFlow x) k of Some s \<Rightarrow> P s | None \<Rightarrow> False)"

definition isSkipped :: "TransactionStep \<Rightarrow> bool" where
  "isSkipped s = (state (getStates s) = SKIPPED)"
definition isReverted :: "TransactionStep \<Rightarrow> bool" where
  "isReverted s = (state (getStates s) = REVERTED)"
definition isIgnoredFailure :: "TransactionStep \<Rightarrow> bool" where
  "isIgnoredFailure s = (state (getStates s) = FAILED \<and> continueOnPermanentFailure (stepDefinition s))"
definition isFatalFailure :: "TransactionStep \<Rightarrow> bool" where
  "isFatalFailure s = (state (getStates s) = FAILED \<and> \<not> continueOnPermanentFailure (stepDefinition s))"

definition holdsAt :: "TransactionFlow \<Rightarrow> (TransactionStep \<Rightarrow> bool) \<Rightarrow> string \<Rightarrow> bool" where
  "holdsAt fl P k = (case completedBy fl k of Some s \<Rightarrow> P s | None \<Rightarrow> False)"

text \<open>
  What the loop of \<open>buildSteps\<close> maintains with respect to the table of existing steps
  it was given: a step built for an existing id is the existing step object, whose
  \<open>next\<close> has only been appended to.
\<close>

definition rehydrated :: "(string \<times> TransactionStep) list \<Rightarrow> BuildState \<Rightarrow> bool" where
  "rehydrated existing st \<longleftrightarrow>
     (\<forall>i s e. map_of (states st) i = Some (Step s) \<longrightarrow> map_of (existingSteps st) i = Some e \<longrightarrow> s = e)
   \<and> (\<forall>i e0. map_of existing i = Some e0 \<longrightarrow>
          (\<exists>added. map_of (existingSteps st) i = Some (e0\<lparr>next := next e0 @ added\<rparr>)))
   \<and> (\<exists>n. map_of (states st) ROOT_STEP = Some (RootStep ROOT_STEP n))"

text \<open>
  Notions used to state the retry bound: the retry limit of a step; the relation between
  a step's status and its \<open>attempts\<close> and \<open>failures\<close> counters that the orchestrator
  maintains; the bound itself; and what \<open>beginTransaction\<close> and the orchestrator's caches
  provide.
\<close>

definition retriesOf :: "TransactionStep \<Rightarrow> int" where
  "retriesOf s = (case maxRetries (stepDefinition s) of None \<Rightarrow> DEFAULT_RETRIES | Some m \<Rightarrow> m)"

definition retryInv :: "TransactionStep \<Rightarrow> bool" where
  "retryInv s \<longleftrightarrow>
     0 \<le> retriesOf s
   \<and> (if stepFailed s then state (compensate s) \<noteq> DORMANT
        else compensate s = \<lparr>status = IDLE, state = DORMANT\<rparr>)
   \<and> (case status (getStates s) of
        IDLE \<Rightarrow> attempts s = 0 \<and> failures s = 0
      | WAITING \<Rightarrow> attempts s = failures s + 1 \<and> failures s \<le> retriesOf s
      | OK \<Rightarrow> attempts s = failures s + 1 \<and> failures s \<le> retriesOf s
                \<and> state (getStates s) \<noteq> NOT_STARTED
      | TEMPORARY_FAILURE \<Rightarrow> attempts s = failures s \<and> failures s \<le> retriesOf s
      | PERMANENT_FAILURE \<Rightarrow> attempts s = failures s \<and> failures s = retriesOf s + 1
                \<and> state (getStates s) = FAILED)"











section \<open>Example transactions\<close>

text \<open>
  The two-step flow of the test suite, \<open>{next: {action: 'A', next: {action: 'B'}}}\<close>,
  with a handler whose invoke of \<open>B\<close> always throws and whose other calls succeed.
\<close>

definition examplePolicy :: "string option \<Rightarrow> StepPolicy" where
  "examplePolicy a =
     \<lparr>action = a, maxRetries = None, continueOnPermanentFailure = False, noWait = False,
      noCompensation = False, policyForwardResponse = None\<rparr>"

definition exampleDefinition :: TransactionStepsDefinition where
  "exampleDefinition =
     Definition (examplePolicy None) False
       (Some (Definition (examplePolicy (Some ''A'')) False
          (Some (Definition (examplePolicy (Some ''B'')) False None))))"

definition exampleOrchestrator :: Orchestrator where
  "exampleOrchestrator =
     \<lparr>orchestratorId = ''order'', orchestratorDefinition = exampleDefinition,
      invokeSteps = [], compensateSteps = []\<rparr>"

definition exampleHandler :: "jsvalue \<Rightarrow> TransactionStepHandler" where
  "exampleHandler err log a ty pl = (if a = ''B'' \<and> ty = INVOKE then Reject err else Resolve None)"

definition exampleStepA :: TransactionStep where
  "exampleStepA = (freshStep ''_root.A'' 1 (examplePolicy (Some ''A'')))\<lparr>next := [''_root.A.B'']\<rparr>"

definition exampleStepB :: TransactionStep where
  "exampleStepB = freshStep ''_root.A.B'' 2 (examplePolicy (Some ''B''))"

definition exampleRoot :: FlowStep where
  "exampleRoot = RootStep ''_root'' [''_root.A'']"

definition exampleFlow :: "TransactionState \<Rightarrow> TransactionStep \<Rightarrow> TransactionStep \<Rightarrow> TransactionFlow" where
  "exampleFlow st a b =
     \<lparr>transactionModelId = ''order'', flowTransactionId = ''tx1'', flowState = st,
      hasSkippedSteps = False, hasFailedSteps = False,
      steps = [(''_root'', exampleRoot), (''_root.A'', Step a), (''_root.A.B'', Step b)]\<rparr>"

definition exampleExecution :: "TransactionFlow \<Rightarrow> Execution" where
  "exampleExecution fl =
     \<lparr>orchestrator = exampleOrchestrator,
      transaction = \<lparr>transactionId = ''tx1'', modelId = ''order'', errors = [], flow = fl,
                     handler = exampleHandler ''boom'', payload = None\<rparr>,
      calls = [], clockReads = 0\<rparr>"

definition exampleDoneA :: TransactionStep where
  "exampleDoneA = exampleStepA\<lparr>invoke := \<lparr>status = OK, state = DONE\<rparr>, attempts := 1\<rparr>"

definition exampleFailedB :: TransactionStep where
  "exampleFailedB =
     exampleStepB\<lparr>invoke := \<lparr>status = PERMANENT_FAILURE, state = FAILED\<rparr>, attempts := 4, failures := 4\<rparr>"

definition exampleRevertedA :: TransactionStep where
  "exampleRevertedA = exampleDoneA\<lparr>stepFailed := True, compensate := \<lparr>status = OK, state = REVERTED\<rparr>\<rparr>"

definition exampleRevertedB :: TransactionStep where
  "exampleRevertedB =
     exampleFailedB\<lparr>stepFailed := True, compensate := \<lparr>status = OK, state = REVERTED\<rparr>,
                    attempts := 1, failures := 0\<rparr>"

text \<open>
  What every test of the suite does with an orchestrator: \<open>beginTransaction\<close>, then
  \<open>resume\<close>.  \<open>callKinds\<close> lists the action and phase of the handler calls made.
\<close>

definition callKinds :: "Execution \<Rightarrow> (string \<times> TransactionHandlerType) list" where
  "callKinds x = map (\<lambda>c. (fst c, fst (snd c))) (calls x)"

definition runTransaction ::
  "Orchestrator \<Rightarrow> string \<Rightarrow> TransactionStepHandler \<Rightarrow> PayloadData option \<Rightarrow> nat \<Rightarrow> (nat \<Rightarrow> int)
   \<Rightarrow> (unit, Execution) outcome option" where
  "runTransaction orch txId h pl fuel now =
     (case beginTransaction orch txId h pl of
        Inl e \<Rightarrow> Some (Threw e \<lparr>orchestrator = orch,
                                  transaction = \<lparr>transactionId = txId, modelId = orchestratorId orch, errors = [],
                                     flow = \<lparr>transactionModelId = orchestratorId orch, flowTransactionId = txId,
                                       flowState = NOT_STARTED, hasSkippedSteps = False, hasFailedSteps = False, steps = []\<rparr>,
                                     handler = h, payload = pl\<rparr>, calls = [], clockReads = 0\<rparr>)
      | Inr t \<Rightarrow> resume fuel now \<lparr>orchestrator = orch, transaction = t, calls = [], clockReads = 0\<rparr>)"

text \<open>
  Every handler that throws whenever it is asked to invoke \<open>B\<close> and succeeds on every
  other call: what it throws and what it returns may depend on the calls made so far and
  on the payload.
\<close>

definition scenarioHandler ::
  "(HandlerCall list \<Rightarrow> string \<Rightarrow> TransactionHandlerType \<Rightarrow> TransactionPayload \<Rightarrow> jsvalue option)
   \<Rightarrow> (HandlerCall list \<Rightarrow> TransactionPayload \<Rightarrow> jsvalue) \<Rightarrow> TransactionStepHandler" where
  "scenarioHandler resp err log a ty pl =
     (if a = ''B'' \<and> ty = INVOKE then Reject (err log pl) else Resolve (resp log a ty pl))"

text \<open>
  The flow \<open>A \<rightarrow> B \<rightarrow> C \<rightarrow> D\<close> where \<open>B\<close> has \<open>continueOnPermanentFailure\<close> and
  \<open>maxRetries = 1\<close>, and a transaction of it in which \<open>A\<close> is done and \<open>B\<close> has failed
  once and is waiting for its second attempt to settle.
\<close>

definition skipPolicyB :: StepPolicy where
  "skipPolicyB = (examplePolicy (Some ''B''))\<lparr>maxRetries := Some 1, continueOnPermanentFailure := True\<rparr>"

definition skipDefinition :: TransactionStepsDefinition where
  "skipDefinition =
     Definition (examplePolicy None) False
       (Some (Definition (examplePolicy (Some ''A'')) False
          (Some (Definition skipPolicyB False
             (Some (Definition (examplePolicy (Some ''C'')) False
                (Some (Definition (examplePolicy (Some ''D'')) False None))))))))"

definition skipOrchestrator :: Orchestrator where
  "skipOrchestrator = exampleOrchestrator\<lparr>orchestratorDefinition := skipDefinition\<rparr>"

definition skipStepB :: TransactionStep where
  "skipStepB =
     (freshStep ''_root.A.B'' 2 skipPolicyB)
       \<lparr>next := [''_root.A.B.C''], invoke := \<lparr>status = WAITING, state = INVOKING\<rparr>,
        attempts := 2, failures := 1\<rparr>"

definition skipStepC :: TransactionStep where
  "skipStepC = (freshStep ''_root.A.B.C'' 3 (examplePolicy (Some ''C'')))\<lparr>next := [''_root.A.B.C.D'']\<rparr>"

definition skipStepD :: TransactionStep where
  "skipStepD = freshStep ''_root.A.B.C.D'' 4 (examplePolicy (Some ''D''))"

definition skipTransaction :: DistributedTransaction where
  "skipTransaction =
     \<lparr>transactionId = ''tx1'', modelId = ''order'', errors = [],
      flow = \<lparr>transactionModelId = ''order'', flowTransactionId = ''tx1'', flowState = INVOKING,
               hasSkippedSteps = False, hasFailedSteps = False,
               steps = [(''_root'', exampleRoot), (''_root.A'', Step exampleDoneA),
                        (''_root.A.B'', Step skipStepB), (''_root.A.B.C'', Step skipStepC),
                        (''_root.A.B.C.D'', Step skipStepD)]\<rparr>,
      handler = exampleHandler ''boom'', payload = None\<rparr>"

text \<open>
  A step as a checkpoint could hold it for \<open>_root.A\<close>: done, and with a depth and a
  definition that differ from what the definition being built gives.
\<close>

definition staleStepA :: TransactionStep where
  "staleStepA =
     exampleDoneA\<lparr>depth := 7, stepDefinition := (examplePolicy (Some ''A''))\<lparr>maxRetries := Some 9\<rparr>\<rparr>"




section \<open>Basic facts\<close>

lemmas example_defs = exampleExecution_def exampleFlow_def exampleStepA_def exampleStepB_def
  exampleRoot_def exampleOrchestrator_def exampleHandler_def freshStep_def examplePolicy_def
  exampleDoneA_def exampleFailedB_def exampleRevertedA_def exampleRevertedB_def

lemmas step_defs = getStates_def setStates_def isCompensating_def changeState_def changeStatus_def
  beginAttempt_def onStep_def putFlowStep_def putStep_def getFlow_def setFlow_def
  getPreviousStep_def parentId_def entryForwardResponse_def entryResponse_def getResponse_def
  buildPayload_def getKeyName_def SEPARATOR_def actionText_def actionKey_def

lemmas pass_defs = passScan_def passTotal_def startsCompensation_def allStepsOf_def
  getInvokeSteps_def getCompensationSteps_def sortBy_def invokeOrder_def compensationOrder_def
  depthOrZero_def scanStep_def canContinue_def canMoveForward_def canMoveBackward_def
  invokeStateIn_def compensateStateIn_def canInvoke_def canCompensate_def classify_def
  emptyScan_def ROOT_STEP_def stepsResult_def finalize_def flagStepsToRevert_def flagStep_def
  beginCompensation_def

lemmas skip_defs = 
  skipPolicyB_def skipDefinition_def skipOrchestrator_def skipStepB_def skipStepC_def
  skipStepD_def skipTransaction_def exampleDefinition_def

lemmas run_defs = runTransaction_def beginTransaction_def createTransactionFlow_def buildSteps_def
  addAction_def pushNextId_def resume_def hasFinished_def getState_def dispatchStep_def
  settleStep_def stepMaxRetries_def setStepSuccess_def setStepFailure_def saveResponse_def
  addError_def DEFAULT_RETRIES_def callKinds_def AList.update_def



lemma andThen_Returned:
  "andThen m f = Returned b s' \<longleftrightarrow> (\<exists>a s. m = Returned a s \<and> f a s = Returned b s')"
  by (cases m) auto

lemma changeState_frame:
  "changeState ts s = Returned u s' \<Longrightarrow>
     attempts s' = attempts s \<and> stepDefinition s' = stepDefinition s \<and> stepFailed s' = stepFailed s
     \<and> failures s' = failures s \<and> next s' = next s \<and> stepId s' = stepId s"
  by (auto simp: changeState_def Let_def setStates_def split: if_splits)

lemma changeStatus_frame:
  "changeStatus ts s = Returned u s' \<Longrightarrow>
     attempts s' = attempts s \<and> stepDefinition s' = stepDefinition s \<and> stepFailed s' = stepFailed s
     \<and> failures s' = failures s \<and> next s' = next s \<and> stepId s' = stepId s"
  by (auto simp: changeStatus_def Let_def setStates_def split: if_splits)

lemma beginAttempt_frame:
  assumes "beginAttempt fs time s = Returned u s'"
  shows "attempts s' = attempts s + 1 \<and> stepDefinition s' = stepDefinition s
         \<and> stepFailed s' = stepFailed s \<and> stepId s' = stepId s"
  using assms
  by (auto simp: beginAttempt_def Let_def andThen_Returned isCompensating_def
           split: if_splits dest!: changeState_frame changeStatus_frame)

lemma map_of_putStep:
  "map_of (putStep k s table) k' =
     (if k' = k \<and> map_of table k \<noteq> None then Some (Step s) else map_of table k')"
  by (auto simp: putStep_def map_of_map_entry split: option.splits)

section \<open>Eligibility\<close>

lemma every_True:
  "every p xs = Inr True \<longleftrightarrow> (\<forall>x \<in> set xs. p x = Inr True)"
  by (induction xs) (auto split: sum.splits)

lemma invokeStateIn_True:
  "invokeStateIn sts sib = Inr True \<longleftrightarrow> (\<exists>s. sib = Some (Step s) \<and> state (invoke s) \<in> set sts)"
  by (cases sib) (auto simp: invokeStateIn_def split: FlowStep.splits)

lemma compensateStateIn_True:
  "compensateStateIn sts sib = Inr True \<longleftrightarrow> (\<exists>s. sib = Some (Step s) \<and> state (compensate s) \<in> set sts)"
  by (cases sib) (auto simp: compensateStateIn_def split: FlowStep.splits)

text \<open>
  Claim C5.  \<open>canMoveForward(flow, previous)\<close> returns true exactly when \<open>previous\<close> has
  \<open>noWait\<close> set or every id in the \<open>next\<close> list of \<open>previous\<close>'s parent names a step whose
  invoke state is DONE, FAILED or SKIPPED; \<open>canMoveBackward(flow, step)\<close> returns true
  exactly when \<open>step.next\<close> is empty or every child has a compensate state among DONE,
  REVERTED, FAILED, DORMANT; and while the flow is not COMPENSATING, \<open>canContinue\<close> returns
  true for every step whose parent is the root.
\<close>

theorem eligibility:
  "(getPreviousStep fl (Step previous) = Some parent \<longrightarrow>
      (canMoveForward fl (Step previous) = Inr True \<longleftrightarrow>
         noWait (stepDefinition previous)
         \<or> (\<forall>sib \<in> set (entryNext parent). \<exists>s. map_of (steps fl) sib = Some (Step s)
               \<and> state (invoke s) \<in> {DONE, FAILED, SKIPPED})))
   \<and> (canMoveBackward fl step = Inr True \<longleftrightarrow>
         entryNext step = []
         \<or> (\<forall>child \<in> set (entryNext step). \<exists>s. map_of (steps fl) child = Some (Step s)
               \<and> state (compensate s) \<in> {DONE, REVERTED, FAILED, DORMANT}))
   \<and> (flowState fl \<noteq> COMPENSATING \<longrightarrow> getPreviousStep fl step = Some root
        \<longrightarrow> entryId root = ROOT_STEP \<longrightarrow> canContinue fl (Some step) = Inr True)"
proof (intro conjI impI)
  assume "getPreviousStep fl (Step previous) = Some parent"
  then show "canMoveForward fl (Step previous) = Inr True \<longleftrightarrow>
         noWait (stepDefinition previous)
         \<or> (\<forall>sib \<in> set (entryNext parent). \<exists>s. map_of (steps fl) sib = Some (Step s)
               \<and> state (invoke s) \<in> {DONE, FAILED, SKIPPED})"
    by (auto simp: canMoveForward_def Let_def every_True invokeStateIn_True)
next
  show "canMoveBackward fl step = Inr True \<longleftrightarrow>
         entryNext step = []
         \<or> (\<forall>child \<in> set (entryNext step). \<exists>s. map_of (steps fl) child = Some (Step s)
               \<and> state (compensate s) \<in> {DONE, REVERTED, FAILED, DORMANT})"
    by (auto simp: canMoveBackward_def Let_def every_True compensateStateIn_True)
next
  assume "flowState fl \<noteq> COMPENSATING" "getPreviousStep fl step = Some root" "entryId root = ROOT_STEP"
  then show "canContinue fl (Some step) = Inr True"
    by (simp add: canContinue_def)
qed

lemma parentId_example: "parentId ''_root.A'' = ''_root''"
  by (simp add: parentId_def)

theorem eligibility_witness:
  "getPreviousStep (exampleFlow INVOKING exampleStepA exampleStepB) (Step exampleStepA) = Some exampleRoot
   \<and> flowState (exampleFlow INVOKING exampleStepA exampleStepB) \<noteq> COMPENSATING
   \<and> entryId exampleRoot = ROOT_STEP
   \<and> entryNext exampleRoot = [''_root.A'']
   \<and> entryNext (Step exampleStepA) = [''_root.A.B'']
   \<and> canMoveForward (exampleFlow INVOKING exampleStepA exampleStepB) (Step exampleStepA) = Inr False
   \<and> canMoveBackward (exampleFlow INVOKING exampleStepA exampleStepB) (Step exampleStepA) = Inr True
   \<and> canContinue (exampleFlow INVOKING exampleStepA exampleStepB) (Some (Step exampleStepA)) = Inr True"
  using eligibility [of "exampleFlow INVOKING exampleStepA exampleStepB" exampleStepA exampleRoot
                        "Step exampleStepA" exampleRoot]
  by (simp add: getPreviousStep_def parentId_example exampleFlow_def exampleStepA_def
        exampleStepB_def exampleRoot_def freshStep_def examplePolicy_def ROOT_STEP_def
        canMoveForward_def invokeStateIn_def)

section \<open>State transitions of a step\<close>

text \<open>
  Claim C8, as the code has it.  For every step and every target state that differs from
  the step's current active state and is not in the allowed-transition table for that
  state, \<open>changeState\<close> throws and leaves every field of the step as it was.
\<close>

theorem changeState_not_allowed:
  assumes "toState \<noteq> state (getStates s)"
    and "toState \<notin> set (allowedStates (state (getStates s)))"
  shows "changeState toState s = Threw (StateNotAllowed (state (getStates s)) toState) s"
  using assms by (simp add: changeState_def Let_def)

theorem changeState_not_allowed_witness:
  "DONE \<noteq> state (getStates exampleStepB)
   \<and> DONE \<notin> set (allowedStates (state (getStates exampleStepB)))
   \<and> changeState DONE exampleStepB = Threw (StateNotAllowed NOT_STARTED DONE) exampleStepB"
  using changeState_not_allowed [of DONE exampleStepB]
  by (simp add: exampleStepB_def freshStep_def getStates_def isCompensating_def)

text \<open>
  The claim as stated fails where the target is the current state: NOT_STARTED is not in
  the table's entry for NOT_STARTED, yet \<open>changeState\<close> returns.
\<close>

theorem changeState_same_state_counterexample:
  "NOT_STARTED \<notin> set (allowedStates (state (getStates exampleStepB)))
   \<and> changeState NOT_STARTED exampleStepB = Returned () exampleStepB"
  by (simp add: exampleStepB_def freshStep_def getStates_def setStates_def isCompensating_def
        changeState_def)

section \<open>Resuming a finished transaction\<close>

text \<open>
  Claim C10.  When the flow state is DONE, REVERTED or FAILED, \<open>resume\<close> on the
  transaction's own orchestrator returns at once and leaves the orchestrator, the
  transaction (flow state, every step, errors, payload), the handler's call log and the
  clock as they were; on another orchestrator it throws, also without any change.
\<close>

theorem resume_finished:
  assumes "flowState (flow (transaction x)) \<in> {DONE, REVERTED, FAILED}"
  shows "(modelId (transaction x) = orchestratorId (orchestrator x)
            \<longrightarrow> resume fuel now x = Some (Returned () x))
       \<and> (modelId (transaction x) \<noteq> orchestratorId (orchestrator x)
            \<longrightarrow> resume fuel now x =
                 Some (Threw (CannotBeOrchestrated (modelId (transaction x))
                                (orchestratorId (orchestrator x))) x))"
  using assms by (auto simp: resume_def hasFinished_def getState_def)

theorem resume_finished_witness:
  "flowState (flow (transaction (exampleExecution (exampleFlow REVERTED exampleStepA exampleStepB))))
     \<in> {DONE, REVERTED, FAILED}
   \<and> modelId (transaction (exampleExecution (exampleFlow REVERTED exampleStepA exampleStepB)))
       = orchestratorId (orchestrator (exampleExecution (exampleFlow REVERTED exampleStepA exampleStepB)))
   \<and> resume 0 (\<lambda>n. int n) (exampleExecution (exampleFlow REVERTED exampleStepA exampleStepB))
       = Some (Returned () (exampleExecution (exampleFlow REVERTED exampleStepA exampleStepB)))"
  using resume_finished [of "exampleExecution (exampleFlow REVERTED exampleStepA exampleStepB)" 0 "\<lambda>n. int n"]
  by (simp add: exampleExecution_def exampleFlow_def exampleOrchestrator_def)


section \<open>The payload of a dispatched step\<close>

text \<open>
  Claim C9.  Whenever \<open>executeNext\<close> dispatches the step stored under a key (the loop
  body \<open>dispatchStep\<close> returns), it calls the handler once, with a payload whose
  \<open>idempotency_key\<close> is the transaction id, the action name and the phase joined by
  \<open>:\<close> (an undefined action joins as the empty text), whose \<open>reply_to_topic\<close> is
  \<open>trans:\<close> followed by the model id, and whose \<open>attempt\<close> is the step's \<open>attempts\<close>
  counter after the increment made for this dispatch.
\<close>

theorem dispatch_metadata:
  assumes "dispatchStep now k x = Returned (k', r) x'"
    and "map_of (steps (getFlow x)) k = Some (Step step0)"
  shows "\<exists>pl step.
      calls x' = calls x @ [(actionText (action (stepDefinition step0)),
                             (if isCompensating step0 then COMPENSATE else INVOKE), pl)]
    \<and> idempotency_key (metadata pl) =
         flowTransactionId (getFlow x) @ '':'' @ actionKey (action (stepDefinition step0)) @ '':''
           @ handlerTypeName (if isCompensating step0 then COMPENSATE else INVOKE)
    \<and> reply_to_topic (metadata pl) = ''trans:'' @ transactionModelId (getFlow x)
    \<and> map_of (steps (getFlow x')) k = Some (Step step)
    \<and> attempts step = attempts step0 + 1
    \<and> attempt (metadata pl) = attempts step"
  using assms
  apply (simp add: dispatchStep_def Let_def onStep_def getFlow_def
              split: outcome.splits option.splits FlowStep.splits)
  apply (auto simp: buildPayload_def getKeyName_def SEPARATOR_def putFlowStep_def map_of_putStep
              dest!: beginAttempt_frame split: if_splits)
  done

theorem dispatch_metadata_witness:
  "dispatchStep (\<lambda>n. int n) ''_root.A'' (exampleExecution (exampleFlow INVOKING exampleStepA exampleStepB))
     = Returned (''_root.A'', Resolve None)
         (finalState (dispatchStep (\<lambda>n. int n) ''_root.A''
            (exampleExecution (exampleFlow INVOKING exampleStepA exampleStepB))))
   \<and> map_of (steps (getFlow (exampleExecution (exampleFlow INVOKING exampleStepA exampleStepB)))) ''_root.A''
       = Some (Step exampleStepA)
   \<and> (\<exists>pl step.
         calls (finalState (dispatchStep (\<lambda>n. int n) ''_root.A''
                  (exampleExecution (exampleFlow INVOKING exampleStepA exampleStepB))))
           = [(''A'', INVOKE, pl)]
       \<and> idempotency_key (metadata pl) = ''tx1:A:invoke''
       \<and> reply_to_topic (metadata pl) = ''trans:order''
       \<and> map_of (steps (getFlow (finalState (dispatchStep (\<lambda>n. int n) ''_root.A''
                  (exampleExecution (exampleFlow INVOKING exampleStepA exampleStepB)))))) ''_root.A''
           = Some (Step step)
       \<and> attempts step = 1
       \<and> attempt (metadata pl) = attempts step)"
  using dispatch_metadata [of "\<lambda>n. int n" "''_root.A''"
          "exampleExecution (exampleFlow INVOKING exampleStepA exampleStepB)"
          "''_root.A''" "Resolve None"
          "finalState (dispatchStep (\<lambda>n. int n) ''_root.A''
              (exampleExecution (exampleFlow INVOKING exampleStepA exampleStepB)))"
          exampleStepA]
  by (simp add: dispatchStep_def example_defs step_defs Let_def)


section \<open>Finalizing the flow in checkAllSteps\<close>

lemma scanStep_flags:
  assumes "scanStep fl sc k = Inr sc'"
  shows "hasSkipped sc' = (hasSkipped sc \<or> holdsAt fl isSkipped k)"
    and "hasReverted sc' = (hasReverted sc \<or> holdsAt fl isReverted k)"
    and "hasIgnoredFailure sc' = (hasIgnoredFailure sc \<or> holdsAt fl isIgnoredFailure k)"
    and "hasFailed sc' = (hasFailed sc \<or> holdsAt fl isFatalFailure k)"
  using assms
  by (auto simp: scanStep_def holdsAt_def completedBy_def classify_def Let_def isSkipped_def isReverted_def
        isIgnoredFailure_def isFatalFailure_def
      split: if_splits sum.splits bool.splits option.splits FlowStep.splits)

lemma scanSteps_flags:
  assumes "scanSteps fl sc ks = Inr sc'"
  shows "hasSkipped sc' = (hasSkipped sc \<or> (\<exists>k \<in> set ks. holdsAt fl isSkipped k))
       \<and> hasReverted sc' = (hasReverted sc \<or> (\<exists>k \<in> set ks. holdsAt fl isReverted k))
       \<and> hasIgnoredFailure sc' = (hasIgnoredFailure sc \<or> (\<exists>k \<in> set ks. holdsAt fl isIgnoredFailure k))
       \<and> hasFailed sc' = (hasFailed sc \<or> (\<exists>k \<in> set ks. holdsAt fl isFatalFailure k))"
  using assms
proof (induction ks arbitrary: sc)
  case Nil
  then show ?case by simp
next
  case (Cons k ks)
  then obtain sc1 where 1: "scanStep fl sc k = Inr sc1" and 2: "scanSteps fl sc1 ks = Inr sc'"
    by (auto split: sum.splits)
  show ?case
    using Cons.IH[OF 2] scanStep_flags[OF 1] by auto
qed

text \<open>
  Claim C3, as the code has it.  For every pass of \<open>checkAllSteps\<close> in which the number of
  completed steps equals \<open>totalSteps\<close> and which does not start compensation (the first
  branch: flow WAITING_TO_COMPENSATE, nothing to run, nothing waiting), the pass returns
  with the flow state set to FAILED if a completed step is FAILED without
  \<open>continueOnPermanentFailure\<close>, otherwise to REVERTED if a completed step is REVERTED,
  otherwise to DONE; \<open>hasSkippedSteps\<close> is set if a completed step is SKIPPED and
  \<open>hasFailedSteps\<close> if a completed step is FAILED with \<open>continueOnPermanentFailure\<close>; the
  steps are not changed.
\<close>

theorem checkAllSteps_finalize:
  assumes "passScan x = Inr sc" and "completedSteps sc = passTotal x"
    and "\<not> startsCompensation x sc"
  shows "\<exists>x'. checkAllSteps x = Returned (stepsResult sc (passTotal x)) x'
     \<and> flowState (getFlow x') =
         (if anyCompleted x isFatalFailure then FAILED
          else if anyCompleted x isReverted then REVERTED else DONE)
     \<and> hasSkippedSteps (getFlow x') = (hasSkippedSteps (getFlow x) \<or> anyCompleted x isSkipped)
     \<and> hasFailedSteps (getFlow x') = (hasFailedSteps (getFlow x) \<or> anyCompleted x isIgnoredFailure)
     \<and> steps (getFlow x') = steps (getFlow x)"
proof -
  have flags: "hasSkipped sc = anyCompleted x isSkipped"
    "hasReverted sc = anyCompleted x isReverted"
    "hasIgnoredFailure sc = anyCompleted x isIgnoredFailure"
    "hasFailed sc = anyCompleted x isFatalFailure"
    using scanSteps_flags[OF assms(1)[unfolded passScan_def]]
    by (simp_all add: anyCompleted_def holdsAt_def emptyScan_def)
  have "checkAllSteps x =
          Returned (stepsResult sc (passTotal x))
            (setFlow (finalize sc (getFlow x)) (x\<lparr>orchestrator := snd (allStepsOf x)\<rparr>))"
    using assms
    by (subst checkAllSteps.simps)
       (auto simp: passScan_def passTotal_def startsCompensation_def Let_def)
  then show ?thesis
    using flags by (auto simp: finalize_def Let_def setFlow_def getFlow_def)
qed


theorem checkAllSteps_finalize_witness:
  "passScan (exampleExecution (exampleFlow COMPENSATING exampleRevertedA exampleRevertedB))
     = Inr \<lparr>hasSkipped = False, hasIgnoredFailure = False, hasFailed = False, hasWaiting = False,
            hasReverted = True, completedSteps = 2, nextSteps = []\<rparr>
   \<and> 2 = passTotal (exampleExecution (exampleFlow COMPENSATING exampleRevertedA exampleRevertedB))
   \<and> \<not> startsCompensation (exampleExecution (exampleFlow COMPENSATING exampleRevertedA exampleRevertedB))
          \<lparr>hasSkipped = False, hasIgnoredFailure = False, hasFailed = False, hasWaiting = False,
            hasReverted = True, completedSteps = 2, nextSteps = []\<rparr>
   \<and> anyCompleted (exampleExecution (exampleFlow COMPENSATING exampleRevertedA exampleRevertedB)) isReverted
   \<and> \<not> anyCompleted (exampleExecution (exampleFlow COMPENSATING exampleRevertedA exampleRevertedB)) isFatalFailure
   \<and> (\<exists>x'. checkAllSteps (exampleExecution (exampleFlow COMPENSATING exampleRevertedA exampleRevertedB))
              = Returned \<lparr>resultNext = [], total = 2, remaining = 0, completed = 2\<rparr> x'
            \<and> flowState (getFlow x') = REVERTED)"
proof -
  let ?x = "exampleExecution (exampleFlow COMPENSATING exampleRevertedA exampleRevertedB)"
  let ?sc = "\<lparr>hasSkipped = False, hasIgnoredFailure = False, hasFailed = False, hasWaiting = False,
            hasReverted = True, completedSteps = 2, nextSteps = []\<rparr>"
  have h: "passScan ?x = Inr ?sc" "completedSteps ?sc = passTotal ?x" "\<not> startsCompensation ?x ?sc"
    by (simp_all add: example_defs step_defs pass_defs Let_def)
  have a: "anyCompleted ?x isReverted" "\<not> anyCompleted ?x isFatalFailure"
    by (simp_all add: example_defs step_defs pass_defs Let_def anyCompleted_def completedBy_def
          isReverted_def isFatalFailure_def)
  have r: "stepsResult ?sc (passTotal ?x) = \<lparr>resultNext = [], total = 2, remaining = 0, completed = 2\<rparr>"
    using h(2) by (simp add: stepsResult_def)
  from checkAllSteps_finalize [OF h] h a r show ?thesis by auto
qed

text \<open>
  The claim as stated fails for a pass that starts compensation: in the flow \<open>A \<rightarrow> B\<close>
  waiting to compensate, with \<open>A\<close> DONE and \<open>B\<close> permanently failed, the loop counts both
  steps as completed and sees a fatal failure, and the flow becomes COMPENSATING, not
  FAILED.
\<close>

theorem checkAllSteps_begins_compensation_counterexample:
  "passScan (exampleExecution (exampleFlow WAITING_TO_COMPENSATE exampleDoneA exampleFailedB))
     = Inr \<lparr>hasSkipped = False, hasIgnoredFailure = False, hasFailed = True, hasWaiting = False,
            hasReverted = False, completedSteps = 2, nextSteps = []\<rparr>
   \<and> passTotal (exampleExecution (exampleFlow WAITING_TO_COMPENSATE exampleDoneA exampleFailedB)) = 2
   \<and> hasReturned (checkAllSteps (exampleExecution (exampleFlow WAITING_TO_COMPENSATE exampleDoneA exampleFailedB)))
   \<and> flowState (getFlow (finalState (checkAllSteps
         (exampleExecution (exampleFlow WAITING_TO_COMPENSATE exampleDoneA exampleFailedB)))))
       = COMPENSATING"
  by (simp add: checkAllSteps.simps example_defs step_defs pass_defs Let_def)



section \<open>Permanent failure of a step with continueOnPermanentFailure\<close>

lemma flow_putFlowStep [simp]:
  "flowState (flow (putFlowStep k s t)) = flowState (flow t)"
  "errors (putFlowStep k s t) = errors t"
  "map_of (steps (flow (putFlowStep k s t))) k' =
     (if k' = k \<and> map_of (steps (flow t)) k \<noteq> None then Some (Step s) else map_of (steps (flow t)) k')"
  by (simp_all add: putFlowStep_def map_of_putStep)

lemma onStep_Returned:
  assumes "map_of (steps (flow t)) k = Some (Step s)" and "f s = Returned u s'"
  shows "onStep k f t = Returned () (putFlowStep k s' t)"
  using assms by (simp add: onStep_def)

lemma changeState_SKIPPED:
  assumes "state (getStates s) \<in> {NOT_STARTED, SKIPPED}"
  shows "\<exists>s'. changeState SKIPPED s = Returned () s' \<and> state (getStates s') = SKIPPED"
  using assms by (auto simp: changeState_def Let_def getStates_def setStates_def isCompensating_def)

lemma skipChildren_skips:
  assumes "\<forall>c \<in> set cs. \<exists>s. map_of (steps (flow t)) c = Some (Step s)
              \<and> state (getStates s) \<in> {NOT_STARTED, SKIPPED}"
  shows "\<exists>t'. skipChildren cs t = Returned () t'
       \<and> flowState (flow t') = flowState (flow t)
       \<and> errors t' = errors t
       \<and> (\<forall>c \<in> set cs. \<exists>s. map_of (steps (flow t')) c = Some (Step s) \<and> state (getStates s) = SKIPPED)
       \<and> (\<forall>k. k \<notin> set cs \<longrightarrow> map_of (steps (flow t')) k = map_of (steps (flow t)) k)"
  using assms
proof (induction cs arbitrary: t)
  case Nil
  then show ?case by simp
next
  case (Cons c cs)
  then obtain s where s: "map_of (steps (flow t)) c = Some (Step s)"
      "state (getStates s) \<in> {NOT_STARTED, SKIPPED}"
    by auto
  obtain s' where s': "changeState SKIPPED s = Returned () s'" "state (getStates s') = SKIPPED"
    using changeState_SKIPPED[OF s(2)] by blast
  let ?t1 = "putFlowStep c s' t"
  have 1: "onStep c (changeState SKIPPED) t = Returned () ?t1"
    using s(1) s'(1) by (simp add: onStep_def)
  have pre: "\<forall>c' \<in> set cs. \<exists>s. map_of (steps (flow ?t1)) c' = Some (Step s)
              \<and> state (getStates s) \<in> {NOT_STARTED, SKIPPED}"
    using Cons.prems s s' by auto
  obtain t' where t': "skipChildren cs ?t1 = Returned () t'"
      "flowState (flow t') = flowState (flow ?t1)" "errors t' = errors ?t1"
      "\<forall>c \<in> set cs. \<exists>s. map_of (steps (flow t')) c = Some (Step s) \<and> state (getStates s) = SKIPPED"
      "\<forall>k. k \<notin> set cs \<longrightarrow> map_of (steps (flow t')) k = map_of (steps (flow ?t1)) k"
    using Cons.IH[OF pre] by blast
  have c: "\<exists>s. map_of (steps (flow t')) c = Some (Step s) \<and> state (getStates s) = SKIPPED"
  proof (cases "c \<in> set cs")
    case True
    then show ?thesis using t'(4) by blast
  next
    case False
    then show ?thesis using t'(5) s s' by simp
  qed
  show ?case
    using 1 t' c by (auto simp: s)
qed

text \<open>
  Claim C1, as the code has it.  When a failure of a step in its invoke phase becomes
  permanent (\<open>failures > maxRetries\<close> after the increment) and the step's definition has
  \<open>continueOnPermanentFailure\<close>, \<open>setStepFailure\<close> sets the state of every step listed in
  the failed step's \<open>next\<close> to SKIPPED and leaves the flow state as it is (it does not
  become WAITING_TO_COMPENSATE); the step itself becomes FAILED with status
  PERMANENT_FAILURE and the error is recorded.  The children must still be NOT_STARTED
  (or SKIPPED), otherwise \<open>changeState\<close> throws.
\<close>

theorem setStepFailure_continue:
  assumes "map_of (steps (flow t)) k = Some (Step step)"
    and "\<not> isCompensating step"
    and "status (invoke step) \<in> {WAITING, TEMPORARY_FAILURE}"
    and "state (invoke step) \<in> {NOT_STARTED, INVOKING, FAILED}"
    and "failures step + 1 > (case m of None \<Rightarrow> DEFAULT_RETRIES | Some v \<Rightarrow> v)"
    and "continueOnPermanentFailure (stepDefinition step)"
    and "\<forall>c \<in> set (next step). c \<noteq> k \<and> (\<exists>cs. map_of (steps (flow t)) c = Some (Step cs)
            \<and> state (getStates cs) \<in> {NOT_STARTED, SKIPPED})"
  shows "\<exists>t'. setStepFailure k err m t = Returned () t'
     \<and> flowState (flow t') = flowState (flow t)
     \<and> (\<forall>c \<in> set (next step). \<exists>cs. map_of (steps (flow t')) c = Some (Step cs)
            \<and> state (getStates cs) = SKIPPED)
     \<and> (\<exists>s'. map_of (steps (flow t')) k = Some (Step s') \<and> state (invoke s') = FAILED
            \<and> status (invoke s') = PERMANENT_FAILURE \<and> failures s' = failures step + 1)
     \<and> errors t' = errors t @ [(action (stepDefinition step), INVOKE, err)]"
proof -
  let ?s1 = "step\<lparr>failures := failures step + 1, invoke := (invoke step)\<lparr>status := TEMPORARY_FAILURE\<rparr>\<rparr>"
  let ?s2 = "?s1\<lparr>invoke := (invoke ?s1)\<lparr>state := FAILED\<rparr>\<rparr>"
  let ?s3 = "?s2\<lparr>invoke := (invoke ?s2)\<lparr>status := PERMANENT_FAILURE\<rparr>\<rparr>"
  let ?t1 = "putFlowStep k ?s1 t"
  let ?t2 = "putFlowStep k ?s2 ?t1"
  let ?t3 = "putFlowStep k ?s3 ?t2"
  let ?t4 = "addError (action (stepDefinition step)) INVOKE err ?t3"
  have a: "changeStatus TEMPORARY_FAILURE (step\<lparr>failures := failures step + 1\<rparr>) = Returned () ?s1"
    using assms(2,3) by (auto simp: changeStatus_def Let_def getStates_def setStates_def isCompensating_def)
  have b: "changeState FAILED ?s1 = Returned () ?s2"
    using assms(2,4) by (auto simp: changeState_def Let_def getStates_def setStates_def isCompensating_def)
  have c: "changeStatus PERMANENT_FAILURE ?s2 = Returned () ?s3"
    using assms(2) by (auto simp: changeStatus_def Let_def getStates_def setStates_def isCompensating_def)
  have 1: "onStep k (\<lambda>s. changeStatus TEMPORARY_FAILURE (s\<lparr>failures := failures s + 1\<rparr>)) t = Returned () ?t1"
    using assms(1) a by (simp add: onStep_def)
  have l1: "map_of (steps (flow ?t1)) k = Some (Step ?s1)" using assms(1) by simp
  have 2: "onStep k (changeState FAILED) ?t1 = Returned () ?t2"
    using l1 b by (simp add: onStep_def)
  have l2: "map_of (steps (flow ?t2)) k = Some (Step ?s2)" using assms(1) by simp
  have 3: "onStep k (changeStatus PERMANENT_FAILURE) ?t2 = Returned () ?t3"
    using l2 c by (simp add: onStep_def)
  have pre: "\<forall>c \<in> set (next step). \<exists>s. map_of (steps (flow ?t4)) c = Some (Step s)
              \<and> state (getStates s) \<in> {NOT_STARTED, SKIPPED}"
    using assms(7) by (auto simp: addError_def)
  obtain t' where t': "skipChildren (next step) ?t4 = Returned () t'"
      "flowState (flow t') = flowState (flow ?t4)" "errors t' = errors ?t4"
      "\<forall>c \<in> set (next step). \<exists>s. map_of (steps (flow t')) c = Some (Step s) \<and> state (getStates s) = SKIPPED"
      "\<forall>k. k \<notin> set (next step) \<longrightarrow> map_of (steps (flow t')) k = map_of (steps (flow ?t4)) k"
    using skipChildren_skips[OF pre] by blast
  have k: "k \<notin> set (next step)" using assms(7) by blast
  have run: "setStepFailure k err m t = Returned () t'"
    using 1 2 3 t'(1) l1 assms(2,5,6)
    by (simp add: setStepFailure_def Let_def isCompensating_def)
  have "map_of (steps (flow t')) k = Some (Step ?s3)"
    using t'(5) k assms(1) by (simp add: addError_def)
  then show ?thesis
    using run t'(2,3,4) by (simp add: addError_def)
qed


theorem setStepFailure_continue_witness:
  "map_of (steps (flow skipTransaction)) ''_root.A.B'' = Some (Step skipStepB)
   \<and> \<not> isCompensating skipStepB
   \<and> status (invoke skipStepB) \<in> {WAITING, TEMPORARY_FAILURE}
   \<and> state (invoke skipStepB) \<in> {NOT_STARTED, INVOKING, FAILED}
   \<and> failures skipStepB + 1 > 1
   \<and> continueOnPermanentFailure (stepDefinition skipStepB)
   \<and> next skipStepB = [''_root.A.B.C'']
   \<and> map_of (steps (flow skipTransaction)) ''_root.A.B.C'' = Some (Step skipStepC)
   \<and> state (getStates skipStepC) = NOT_STARTED
   \<and> (\<exists>t'. setStepFailure ''_root.A.B'' (HandlerRejected ''boom'') (Some 1) skipTransaction = Returned () t'
          \<and> flowState (flow t') = INVOKING
          \<and> (\<exists>cs. map_of (steps (flow t')) ''_root.A.B.C'' = Some (Step cs) \<and> state (getStates cs) = SKIPPED))"
proof -
  have h: "map_of (steps (flow skipTransaction)) ''_root.A.B'' = Some (Step skipStepB)"
    "\<not> isCompensating skipStepB"
    "status (invoke skipStepB) \<in> {WAITING, TEMPORARY_FAILURE}"
    "state (invoke skipStepB) \<in> {NOT_STARTED, INVOKING, FAILED}"
    "failures skipStepB + 1 > (case Some 1 of None \<Rightarrow> DEFAULT_RETRIES | Some v \<Rightarrow> v)"
    "continueOnPermanentFailure (stepDefinition skipStepB)"
    by (simp_all add: example_defs skip_defs isCompensating_def)
  have c: "next skipStepB = [''_root.A.B.C'']"
    "map_of (steps (flow skipTransaction)) ''_root.A.B.C'' = Some (Step skipStepC)"
    "state (getStates skipStepC) = NOT_STARTED"
    "flowState (flow skipTransaction) = INVOKING"
    by (simp_all add: example_defs skip_defs getStates_def isCompensating_def)
  have "\<forall>c \<in> set (next skipStepB). c \<noteq> ''_root.A.B''
          \<and> (\<exists>cs. map_of (steps (flow skipTransaction)) c = Some (Step cs)
                \<and> state (getStates cs) \<in> {NOT_STARTED, SKIPPED})"
    using c by simp
  from setStepFailure_continue [OF h this, of "HandlerRejected ''boom''"] h c
  show ?thesis by auto
qed

text \<open>
  The claim as stated fails for descendants below the children: \<open>D\<close> is a grandchild of
  \<open>B\<close>; after the permanent failure of \<open>B\<close> it is still NOT_STARTED, and the run goes on
  to invoke it.
\<close>

theorem setStepFailure_grandchild_counterexample:
  "next skipStepB = [''_root.A.B.C''] \<and> next skipStepC = [''_root.A.B.C.D'']
   \<and> hasReturned (setStepFailure ''_root.A.B'' (HandlerRejected ''boom'') (Some 1) skipTransaction)
   \<and> map_of (steps (flow (finalState
         (setStepFailure ''_root.A.B'' (HandlerRejected ''boom'') (Some 1) skipTransaction)))) ''_root.A.B.C.D''
       = Some (Step skipStepD)
   \<and> state (invoke skipStepD) = NOT_STARTED
   \<and> callKinds (finalState (the (runTransaction skipOrchestrator ''tx1'' (exampleHandler ''boom'') None 10 (\<lambda>n. int n))))
       = [(''A'', INVOKE), (''B'', INVOKE), (''B'', INVOKE), (''D'', INVOKE)]
   \<and> flowState (getFlow (finalState (the (runTransaction skipOrchestrator ''tx1'' (exampleHandler ''boom'') None 10 (\<lambda>n. int n)))))
       = DONE"
  by code_simp



section \<open>Retry and compensation in the two-step flow\<close>

text \<open>More nested calls allowed do not change the outcome of a run that returned.\<close>

lemma executeNext_more_fuel:
  "executeNext fuel now x = Some r \<Longrightarrow> executeNext (fuel + n) now x = Some r"
proof (induction fuel arbitrary: x)
  case 0
  then show ?case by simp
next
  case (Suc fuel)
  then show ?case
    by (auto split: if_splits outcome.splits)
qed

lemma resume_more_fuel:
  "resume fuel now x = Some r \<Longrightarrow> resume (fuel + n) now x = Some r"
  by (auto simp: resume_def Let_def executeNext_more_fuel split: if_splits)

lemma runTransaction_more_fuel:
  "runTransaction orch txId h pl fuel now = Some r
   \<Longrightarrow> runTransaction orch txId h pl (fuel + n) now = Some r"
  by (auto simp: runTransaction_def resume_more_fuel split: sum.splits)

lemma retry_run_8:
  "\<exists>x. runTransaction exampleOrchestrator txId (scenarioHandler resp err) pl 8 now = Some (Returned () x)
     \<and> callKinds x = [(''A'', INVOKE), (''B'', INVOKE), (''B'', INVOKE), (''B'', INVOKE),
                       (''B'', INVOKE), (''B'', COMPENSATE), (''A'', COMPENSATE)]
     \<and> flowState (getFlow x) = REVERTED"
proof (cases pl)
  case None
  have "hasReturned (the (runTransaction exampleOrchestrator txId (scenarioHandler resp err) None 8 now))
        \<and> runTransaction exampleOrchestrator txId (scenarioHandler resp err) None 8 now \<noteq> None
        \<and> callKinds (finalState (the (runTransaction exampleOrchestrator txId (scenarioHandler resp err) None 8 now)))
           = [(''A'', INVOKE), (''B'', INVOKE), (''B'', INVOKE), (''B'', INVOKE),
                       (''B'', INVOKE), (''B'', COMPENSATE), (''A'', COMPENSATE)]
        \<and> flowState (getFlow (finalState (the (runTransaction exampleOrchestrator txId (scenarioHandler resp err) None 8 now)))) = REVERTED"
    by code_simp
  then show ?thesis
    unfolding None
    by (cases "runTransaction exampleOrchestrator txId (scenarioHandler resp err) None 8 now")
       (auto elim: hasReturned.elims)
next
  case (Some pd)
  have "hasReturned (the (runTransaction exampleOrchestrator txId (scenarioHandler resp err) (Some pd) 8 now))
        \<and> runTransaction exampleOrchestrator txId (scenarioHandler resp err) (Some pd) 8 now \<noteq> None
        \<and> callKinds (finalState (the (runTransaction exampleOrchestrator txId (scenarioHandler resp err) (Some pd) 8 now)))
           = [(''A'', INVOKE), (''B'', INVOKE), (''B'', INVOKE), (''B'', INVOKE),
                       (''B'', INVOKE), (''B'', COMPENSATE), (''A'', COMPENSATE)]
        \<and> flowState (getFlow (finalState (the (runTransaction exampleOrchestrator txId (scenarioHandler resp err) (Some pd) 8 now)))) = REVERTED"
    by code_simp
  then show ?thesis
    unfolding Some
    by (cases "runTransaction exampleOrchestrator txId (scenarioHandler resp err) (Some pd) 8 now")
       (auto elim: hasReturned.elims)
qed

text \<open>
  Claim C4.  In the flow \<open>A \<rightarrow> B\<close> with the default retry policy (no \<open>maxRetries\<close>, so
  \<open>DEFAULT_RETRIES = 3\<close>), with a handler whose invoke of \<open>B\<close> always throws and whose
  other calls (invoke of \<open>A\<close>, both compensations) succeed, \<open>beginTransaction\<close> followed by
  \<open>resume\<close> returns (eight nested calls of \<open>executeNext\<close> are enough) after exactly these
  handler calls, in this order: invoke \<open>A\<close> once, invoke \<open>B\<close> four times, compensate \<open>B\<close>
  once, compensate \<open>A\<close> once; the flow state is then REVERTED.
\<close>

theorem retry_then_compensate:
  assumes "8 \<le> fuel"
  shows "\<exists>x. runTransaction exampleOrchestrator txId (scenarioHandler resp err) pl fuel now
               = Some (Returned () x)
     \<and> callKinds x = [(''A'', INVOKE), (''B'', INVOKE), (''B'', INVOKE), (''B'', INVOKE),
                       (''B'', INVOKE), (''B'', COMPENSATE), (''A'', COMPENSATE)]
     \<and> count_list (callKinds x) (''A'', INVOKE) = 1
     \<and> count_list (callKinds x) (''B'', INVOKE) = 4
     \<and> count_list (callKinds x) (''A'', COMPENSATE) = 1
     \<and> count_list (callKinds x) (''B'', COMPENSATE) = 1
     \<and> flowState (getFlow x) = REVERTED"
proof -
  obtain x where x: "runTransaction exampleOrchestrator txId (scenarioHandler resp err) pl 8 now
               = Some (Returned () x)"
     "callKinds x = [(''A'', INVOKE), (''B'', INVOKE), (''B'', INVOKE), (''B'', INVOKE),
                       (''B'', INVOKE), (''B'', COMPENSATE), (''A'', COMPENSATE)]"
     "flowState (getFlow x) = REVERTED"
    using retry_run_8 by blast
  have "runTransaction exampleOrchestrator txId (scenarioHandler resp err) pl (8 + (fuel - 8)) now
               = Some (Returned () x)"
    using runTransaction_more_fuel [OF x(1)] .
  then have "runTransaction exampleOrchestrator txId (scenarioHandler resp err) pl fuel now
               = Some (Returned () x)"
    using assms by simp
  then show ?thesis using x(2,3) by simp
qed

theorem retry_then_compensate_witness:
  "(8::nat) \<le> 8
   \<and> (\<exists>x. runTransaction exampleOrchestrator ''tx1''
               (scenarioHandler (\<lambda>log a ty pl. None) (\<lambda>log pl. ''boom'')) None 8 (\<lambda>n. int n)
               = Some (Returned () x)
     \<and> count_list (callKinds x) (''A'', INVOKE) = 1
     \<and> count_list (callKinds x) (''B'', INVOKE) = 4
     \<and> count_list (callKinds x) (''A'', COMPENSATE) = 1
     \<and> count_list (callKinds x) (''B'', COMPENSATE) = 1
     \<and> flowState (getFlow x) = REVERTED)"
  using retry_then_compensate [of 8 "''tx1''" "\<lambda>log a ty pl. None" "\<lambda>log pl. ''boom''" None "\<lambda>n. int n"]
  by auto


section \<open>Rebuilding steps from existing ones\<close>

lemma joinWith_snoc:
  "l \<noteq> [] \<Longrightarrow> joinWith sep (l @ [a]) = joinWith sep l @ sep @ a"
  by (induction sep l rule: joinWith.induct) auto

lemma joined_not_root:
  "l \<noteq> [] \<Longrightarrow> joinWith ''.'' (l @ [a]) \<noteq> ROOT_STEP"
proof
  assume l: "l \<noteq> []" and eq: "joinWith ''.'' (l @ [a]) = ROOT_STEP"
  have "CHR ''.'' \<in> set (joinWith ''.'' (l @ [a]))"
    using l by (simp add: joinWith_snoc)
  then show False
    unfolding eq by (simp add: ROOT_STEP_def)
qed

lemma addAction_rehydrated:
  assumes "rehydrated existing st" and "level \<noteq> []" and "addAction obj a level st = Inr st'"
  shows "rehydrated existing st'"
proof -
  let ?i = "joinWith ''.'' (level @ [a])"
  let ?parent = "joinWith ''.'' (butlast (level @ [a]))"
  let ?states1 = "AList.map_entry ?parent (pushNextId ?i) (states st)"
  let ?existing1 = "(if ?parent \<noteq> ROOT_STEP
                     then AList.map_entry ?parent (\<lambda>s. s\<lparr>next := next s @ [?i]\<rparr>) (existingSteps st)
                     else existingSteps st)"
  let ?new = "(case map_of ?existing1 ?i of Some e \<Rightarrow> e
               | None \<Rightarrow> freshStep ?i (int (length (level @ [a])) - 1) obj)"
  have st': "st' = \<lparr>states = AList.update ?i (Step ?new) ?states1,
                     actionNames = actionNames st @ [a], existingSteps = ?existing1\<rparr>"
    using assms(3) by (auto simp: addAction_def Let_def split: if_splits option.splits)
  have notroot: "?i \<noteq> ROOT_STEP" using joined_not_root[OF assms(2)] .
  from assms(1) obtain n where
    I1: "\<And>i s e. map_of (states st) i = Some (Step s) \<Longrightarrow> map_of (existingSteps st) i = Some e \<Longrightarrow> s = e"
    and I2: "\<And>i e0. map_of existing i = Some e0 \<Longrightarrow>
          (\<exists>added. map_of (existingSteps st) i = Some (e0\<lparr>next := next e0 @ added\<rparr>))"
    and I3: "map_of (states st) ROOT_STEP = Some (RootStep ROOT_STEP n)"
    unfolding rehydrated_def by blast
  have J1: "\<And>i s e. map_of ?states1 i = Some (Step s) \<Longrightarrow> map_of ?existing1 i = Some e \<Longrightarrow> s = e"
    using I1 I3
    by (auto simp: map_of_map_entry pushNextId_def split: if_splits option.splits FlowStep.splits)
  have J2: "\<And>i e0. map_of existing i = Some e0 \<Longrightarrow>
          (\<exists>added. map_of ?existing1 i = Some (e0\<lparr>next := next e0 @ added\<rparr>))"
  proof -
    fix i e0 assume "map_of existing i = Some e0"
    then obtain added where "map_of (existingSteps st) i = Some (e0\<lparr>next := next e0 @ added\<rparr>)"
      using I2 by blast
    then show "\<exists>added. map_of ?existing1 i = Some (e0\<lparr>next := next e0 @ added\<rparr>)"
      by (cases "i = ?parent") (auto simp: map_of_map_entry)
  qed
  have J3: "\<exists>n. map_of ?states1 ROOT_STEP = Some (RootStep ROOT_STEP n)"
    using I3 by (auto simp: map_of_map_entry pushNextId_def)
  show ?thesis
    unfolding rehydrated_def st'
    using J1 J2 J3 notroot
    by (auto simp: update_conv' split: option.splits)
qed


lemma visit_rehydrated:
  assumes "rehydrated existing st" and "level \<noteq> []" and "visit obj level st = Inr st'"
  shows "rehydrated existing st'"
  using assms
  by (cases obj) (auto split: option.splits dest: addAction_rehydrated)

lemma childLevel_nonempty:
  "level \<noteq> [] \<Longrightarrow> childLevel obj level \<noteq> []"
  by (cases obj) (auto split: option.splits)

lemma buildQueue_rehydrated:
  assumes "buildQueue queue st = Inr st'" and "rehydrated existing st"
    and "\<forall>(d, l) \<in> set queue. l \<noteq> []"
  shows "rehydrated existing st'"
  using assms
proof (induction queue st rule: buildQueue.induct)
  case (1 st)
  then show ?case by simp
next
  case (2 obj level queue st)
  from "2.prems"(1) obtain st1 where v: "visit obj level st = Inr st1"
    and rest: "buildQueue (queue @ map (\<lambda>d. (d, childLevel obj level)) (children obj)) st1 = Inr st'"
    by (auto split: sum.splits)
  have level: "level \<noteq> []" using "2.prems"(3) by simp
  have r1: "rehydrated existing st1"
    using visit_rehydrated[OF "2.prems"(2) level v] .
  have q: "\<forall>(d, l) \<in> set (queue @ map (\<lambda>d. (d, childLevel obj level)) (children obj)). l \<noteq> []"
    using "2.prems"(3) childLevel_nonempty[OF level, of obj]
      childLevel_nonempty[OF level, of obj, symmetric] by auto
  show ?case
    using "2.IH"[OF v rest r1 q] .
qed

text \<open>
  Claim C6, as the code has it.  When \<open>buildSteps\<close> is given a table of existing steps,
  the step it builds for an id present in that table is the existing step with all its
  attributes: states, statuses, attempts, failures, lastAttempt and response, and also
  id, depth and definition, which are not recomputed; only ids are appended to its
  \<open>next\<close>.
\<close>

theorem buildSteps_keeps_existing:
  assumes "buildSteps def existing = Inr table"
    and "map_of existing i = Some e"
    and "map_of table i = Some (Step s)"
  shows "\<exists>added. s = e\<lparr>next := next e @ added\<rparr>"
proof -
  let ?st0 = "\<lparr>states = [(ROOT_STEP, RootStep ROOT_STEP [])], actionNames = [], existingSteps = existing\<rparr>"
  obtain st where st: "buildQueue [(def, [ROOT_STEP])] ?st0 = Inr st" and table: "table = states st"
    using assms(1) by (auto simp: buildSteps_def split: sum.splits)
  have "rehydrated existing ?st0"
    unfolding rehydrated_def
    by (auto intro: exI[of _ "[]"])
  then have "rehydrated existing st"
    using buildQueue_rehydrated[OF st] by simp
  then show ?thesis
    using assms(2,3) unfolding rehydrated_def table by blast
qed

theorem buildSteps_keeps_existing_witness:
  "buildSteps exampleDefinition [(''_root.A'', staleStepA)]
     = Inr (projr (buildSteps exampleDefinition [(''_root.A'', staleStepA)]))
   \<and> map_of [(''_root.A'', staleStepA)] ''_root.A'' = Some staleStepA
   \<and> map_of (projr (buildSteps exampleDefinition [(''_root.A'', staleStepA)])) ''_root.A''
       = Some (Step (staleStepA\<lparr>next := [''_root.A.B'', ''_root.A.B'']\<rparr>))
   \<and> (\<exists>added. staleStepA\<lparr>next := [''_root.A.B'', ''_root.A.B'']\<rparr>
                 = staleStepA\<lparr>next := next staleStepA @ added\<rparr>)"
proof -
  have h: "buildSteps exampleDefinition [(''_root.A'', staleStepA)]
     = Inr (projr (buildSteps exampleDefinition [(''_root.A'', staleStepA)]))"
    "map_of [(''_root.A'', staleStepA)] ''_root.A'' = Some staleStepA"
    "map_of (projr (buildSteps exampleDefinition [(''_root.A'', staleStepA)])) ''_root.A''
       = Some (Step (staleStepA\<lparr>next := [''_root.A.B'', ''_root.A.B'']\<rparr>))"
    by code_simp+
  from buildSteps_keeps_existing [OF h] h show ?thesis by simp
qed

text \<open>
  The claim as stated fails: built with an existing step for \<open>_root.A\<close> of depth 7 and
  \<open>maxRetries = 9\<close>, the table holds that depth and that definition (and a \<open>next\<close> list
  with the child added to the one it had), while the definition being built gives depth
  1, no \<open>maxRetries\<close> and the child once.
\<close>

theorem buildSteps_not_recomputed_counterexample:
  "map_of (projr (buildSteps exampleDefinition [(''_root.A'', staleStepA)])) ''_root.A''
       = Some (Step (staleStepA\<lparr>next := [''_root.A.B'', ''_root.A.B'']\<rparr>))
   \<and> depth staleStepA = 7
   \<and> maxRetries (stepDefinition staleStepA) = Some 9
   \<and> map_of (projr (buildSteps exampleDefinition [])) ''_root.A'' = Some (Step exampleStepA)
   \<and> depth exampleStepA = 1
   \<and> maxRetries (stepDefinition exampleStepA) = None
   \<and> next exampleStepA = [''_root.A.B'']"
  by code_simp


section \<open>The retry bound\<close>




lemma keys_putStep [simp]: "map fst (putStep k s table) = map fst table"
  by (induction table) (auto simp: putStep_def)



lemma allowed_NOT_STARTED [simp]: "NOT_STARTED \<in> set (allowedStates st) \<longleftrightarrow> st = DORMANT"
  by (cases st) auto

lemma allowed_SKIPPED [simp]: "SKIPPED \<in> set (allowedStates st) \<longleftrightarrow> st = NOT_STARTED"
  by (cases st) auto




lemma keys_putFlowStep [simp]:
  "map fst (steps (flow (putFlowStep k s t))) = map fst (steps (flow t))"
  by (simp add: putFlowStep_def)

















lemma set_insertBy [simp]: "set (insertBy cmp x xs) = insert x (set xs)"
  by (induction xs) auto

lemma distinct_insertBy [simp]: "distinct (insertBy cmp x xs) \<longleftrightarrow> x \<notin> set xs \<and> distinct xs"
  by (induction xs) auto

lemma set_sortBy [simp]: "set (sortBy cmp xs) = set xs"
  by (induction xs) (auto simp: sortBy_def)

lemma distinct_sortBy [simp]: "distinct (sortBy cmp xs) \<longleftrightarrow> distinct xs"
proof (induction xs)
  case Nil
  then show ?case by (simp add: sortBy_def)
next
  case (Cons x xs)
  have "sortBy cmp (x # xs) = insertBy cmp x (sortBy cmp xs)" by (simp add: sortBy_def)
  then show ?case using Cons by simp
qed











lemma keys_map_entry [simp]: "map fst (AList.map_entry k f table) = map fst table"
  by (induction table) auto


lemma retryInv_next [simp]: "retryInv (s\<lparr>next := n\<rparr>) = retryInv s"
  by (auto simp: retryInv_def retriesOf_def getStates_def isCompensating_def
        split: TransactionStepStatus.splits)










end
